theory Spec2Isabelle
  imports Main "HOL-Library.Word" "HOL-Library.AList" "HOL-Library.List_Lexorder"
    "HOL-Library.Char_ord"
begin

unbundle bit_operations_syntax

section \<open>Errors\<close>

text \<open>
  Go's \<^verbatim>\<open>error\<close> values, as far as the server and its file driver make or inspect them:
  the \<^verbatim>\<open>*os.PathError\<close> of a failed system call with its operation, path and errno, the
  \<^verbatim>\<open>*os.LinkError\<close> of a failed \<^verbatim>\<open>os.Rename\<close> with its operation, both paths and errno, the error
  of a failed \<^verbatim>\<open>os.Getwd\<close>, an \<^verbatim>\<open>errors.New\<close> value with its text, the sentinels
  \<^verbatim>\<open>filepath.SkipDir\<close> and \<^verbatim>\<open>ErrServerClosed\<close>, and a \<^verbatim>\<open>net.Error\<close> with the answer of its
  \<^verbatim>\<open>Temporary()\<close> method. \<open>Panic\<close> marks a run-time panic that unwinds the caller; it is not a
  value the source returns.
\<close>

datatype errno = ENOENT | ENOTDIR | EISDIR | ENOTEMPTY | EEXIST | EINVAL | EBUSY | EBADF

datatype error =
    PathError string string errno
  | LinkError string string string errno
  | SyscallError string errno
  | ErrorString string
  | SkipDir
  | ErrServerClosed
  | NetError bool string
  | Panic string

definition errno_text :: "errno \<Rightarrow> string" where
  "errno_text e = (case e of
       ENOENT \<Rightarrow> ''no such file or directory''
     | ENOTDIR \<Rightarrow> ''not a directory''
     | EISDIR \<Rightarrow> ''is a directory''
     | ENOTEMPTY \<Rightarrow> ''directory not empty''
     | EEXIST \<Rightarrow> ''file exists''
     | EINVAL \<Rightarrow> ''invalid argument''
     | EBUSY \<Rightarrow> ''device or resource busy''
     | EBADF \<Rightarrow> ''bad file descriptor'')"

text \<open>The method \<^verbatim>\<open>Error()\<close> of an error value.\<close>

definition error_Error :: "error \<Rightarrow> string" where
  "error_Error err = (case err of
       PathError op path e \<Rightarrow> op @ '' '' @ path @ '': '' @ errno_text e
     | LinkError op old new e \<Rightarrow> op @ '' '' @ old @ '' '' @ new @ '': '' @ errno_text e
     | SyscallError call e \<Rightarrow> call @ '': '' @ errno_text e
     | ErrorString s \<Rightarrow> s
     | SkipDir \<Rightarrow> ''skip this directory''
     | ErrServerClosed \<Rightarrow> ''ftp: Server closed''
     | NetError _ s \<Rightarrow> s
     | Panic s \<Rightarrow> s)"

definition os_IsNotExist :: "error \<Rightarrow> bool" where
  "os_IsNotExist err = (case err of
       PathError _ _ e \<Rightarrow> e = ENOENT
     | LinkError _ _ _ e \<Rightarrow> e = ENOENT
     | SyscallError _ e \<Rightarrow> e = ENOENT
     | _ \<Rightarrow> False)"


section \<open>Strings and lexical paths\<close>

text \<open>
  The file driver (\<^verbatim>\<open>src/server/filedriver.go\<close>) turns the virtual path of a client into a
  physical one with \<^verbatim>\<open>strings.Split\<close> and \<^verbatim>\<open>filepath.Join\<close>. Both are functions of Go's
  standard library; they are modelled here for the slash-separated (POSIX) flavour of
  \<^verbatim>\<open>path/filepath\<close>, on the elements of a path.
\<close>

text \<open>\<^verbatim>\<open>strings.Split(s, sep)\<close> for a separator of one byte: the pieces between the separators, of
  which there is always at least one.\<close>

fun strings_Split :: "string \<Rightarrow> char \<Rightarrow> string list" where
  "strings_Split [] c = [[]]"
| "strings_Split (x # xs) c =
     (if x = c then [] # strings_Split xs c
      else (case strings_Split xs c of
              [] \<Rightarrow> [[x]]
            | w # ws \<Rightarrow> (x # w) # ws))"

text \<open>\<^verbatim>\<open>strings.Join(elems, sep)\<close>.\<close>

fun strings_Join :: "string list \<Rightarrow> string \<Rightarrow> string" where
  "strings_Join [] sep = []"
| "strings_Join [e] sep = e"
| "strings_Join (e # es) sep = e @ sep @ strings_Join es sep"

definition is_rooted :: "string \<Rightarrow> bool" where
  "is_rooted p = (case p of [] \<Rightarrow> False | c # _ \<Rightarrow> c = CHR ''/'')"

text \<open>One round of the loop of \<^verbatim>\<open>filepath.Clean\<close>, on the next element \<open>e\<close> of the path
  with \<open>out\<close> the elements written so far: an empty element and \<^verbatim>\<open>.\<close> are dropped,
  \<^verbatim>\<open>..\<close> removes the last element written when that is a name, is dropped at the root of a
  rooted path, and is kept in front of a relative one; a name is appended.\<close>

definition clean_elem :: "bool \<Rightarrow> string list \<Rightarrow> string \<Rightarrow> string list" where
  "clean_elem rooted out e =
     (if e = [] \<or> e = ''.'' then out
      else if e = ''..'' then
        (if out \<noteq> [] \<and> last out \<noteq> ''..'' then butlast out
         else if rooted then out
         else out @ [''..''])
      else out @ [e])"

definition clean_elems :: "string \<Rightarrow> string list" where
  "clean_elems p = foldl (clean_elem (is_rooted p)) [] (strings_Split p CHR ''/'')"

text \<open>\<^verbatim>\<open>filepath.Clean\<close>: the shortest path equivalent to \<open>p\<close> by lexical processing alone; the
  empty path and a relative path that cancels out become \<^verbatim>\<open>.\<close>.\<close>

definition filepath_Clean :: "string \<Rightarrow> string" where
  "filepath_Clean p =
     (if p = [] then ''.''
      else if is_rooted p then ''/'' @ strings_Join (clean_elems p) ''/''
      else if clean_elems p = [] then ''.''
      else strings_Join (clean_elems p) ''/'')"

text \<open>\<^verbatim>\<open>filepath.Join\<close>: the elements from the first non-empty one on, joined with slashes and
  cleaned; the empty string when every element is empty.\<close>

definition filepath_Join :: "string list \<Rightarrow> string" where
  "filepath_Join elem =
     (case dropWhile (\<lambda>e. e = []) elem of
        [] \<Rightarrow> []
      | es \<Rightarrow> filepath_Clean (strings_Join es ''/''))"

text \<open>The elements \<^verbatim>\<open>filepath.Rel\<close> steps through: those between the slashes, where the root
  \<^verbatim>\<open>/\<close> has the one (empty) element in front of its slash.\<close>

definition rel_elems :: "string \<Rightarrow> string list" where
  "rel_elems p = (if p = [] then [] else if p = ''/'' then [[]] else strings_Split p CHR ''/'')"

fun strip_common :: "string list \<Rightarrow> string list \<Rightarrow> string list \<times> string list" where
  "strip_common (b # bs) (t # ts) = (if b = t then strip_common bs ts else (b # bs, t # ts))"
| "strip_common bs ts = (bs, ts)"

text \<open>\<^verbatim>\<open>filepath.Rel\<close>: both paths are cleaned and their common leading elements skipped; what
  is left of the base is climbed with \<^verbatim>\<open>..\<close>, what is left of the target is appended. It fails
  when only one of the paths is rooted, or the base goes on with \<^verbatim>\<open>..\<close> where the two part.\<close>

definition filepath_Rel :: "string \<Rightarrow> string \<Rightarrow> error + string" where
  "filepath_Rel basepath targpath =
     (let base = filepath_Clean basepath; targ = filepath_Clean targpath in
      if targ = base then Inr ''.''
      else
        (let base' = (if base = ''.'' then [] else base) in
         if is_rooted base' \<noteq> is_rooted targ
         then Inl (ErrorString (''Rel: can't make '' @ targpath @ '' relative to '' @ basepath))
         else
           (case strip_common (rel_elems base') (rel_elems targ) of
              (brest, trest) \<Rightarrow>
                if brest \<noteq> [] \<and> trest \<noteq> [] \<and> hd brest = ''..''
                then Inl (ErrorString (''Rel: can't make '' @ targpath @ '' relative to '' @ basepath))
                else if brest \<noteq> []
                then Inr (strings_Join (replicate (length brest) ''..'' @ trest) ''/'')
                else Inr (strings_Join trest ''/''))))"

text \<open>The name a \<^verbatim>\<open>FileInfo\<close> of package \<^verbatim>\<open>os\<close> reports for a path: trailing slashes are removed
  (but for the first byte) and the part after the last slash is kept.\<close>

definition basename :: "string \<Rightarrow> string" where
  "basename name =
     (let kept = rev (dropWhile (\<lambda>c. c = CHR ''/'') (rev name));
          name' = (if kept = [] then take 1 name else kept)
      in if name' = ''/'' then ''/'' else last (strings_Split name' CHR ''/''))"

text \<open>\<^verbatim>\<open>FileDriver.realPath\<close>:
  \<^verbatim>\<open>paths := strings.Split(path, "/"); return filepath.Join(append([]string{f.RootPath}, paths...)...)\<close>\<close>

definition realPath :: "string \<Rightarrow> string \<Rightarrow> string" where
  "realPath root path = filepath_Join (root # strings_Split path CHR ''/'')"

text \<open>A path lies lexically under a root when both are rooted or both are relative, the
  cleaned elements of the root are the first elements of the cleaned path, and no \<^verbatim>\<open>..\<close>
  follows them.\<close>

definition lexically_under :: "string \<Rightarrow> string \<Rightarrow> bool" where
  "lexically_under root p =
     (is_rooted p = is_rooted root \<and>
      take (length (clean_elems root)) (clean_elems p) = clean_elems root \<and>
      ''..'' \<notin> set (drop (length (clean_elems root)) (clean_elems p)))"

text \<open>A virtual path stays below the virtual root when, read element by element from
  the root, it never climbs above it: an empty element and \<^verbatim>\<open>.\<close> stay where they are, a name
  goes one level down, and \<^verbatim>\<open>..\<close> goes one level up, which it can only where the depth is not
  zero.\<close>

fun stays_below :: "string list \<Rightarrow> nat \<Rightarrow> bool" where
  "stays_below [] depth = True"
| "stays_below (e # es) depth =
     (if e = [] \<or> e = ''.'' then stays_below es depth
      else if e = ''..'' then (0 < depth \<and> stays_below es (depth - 1))
      else stays_below es (Suc depth))"

definition stays_within :: "string \<Rightarrow> bool" where
  "stays_within path = stays_below (strings_Split path CHR ''/'') 0"

text \<open>What \<^verbatim>\<open>filepath.Clean\<close> writes: elements that are neither empty nor \<^verbatim>\<open>.\<close> and hold no
  slash, with \<^verbatim>\<open>..\<close> only in front, and only in a relative path.\<close>

definition plain :: "string \<Rightarrow> bool" where
  "plain e = (e \<noteq> [] \<and> e \<noteq> ''.'' \<and> CHR ''/'' \<notin> set e)"

definition canon :: "bool \<Rightarrow> string list \<Rightarrow> bool" where
  "canon rooted xs = ((\<forall>e \<in> set xs. plain e) \<and>
      ''..'' \<notin> set (dropWhile (\<lambda>e. e = ''..'') xs) \<and> (rooted \<longrightarrow> ''..'' \<notin> set xs))"


section \<open>The file system\<close>

text \<open>
  The driver works on the file system of the host through package \<^verbatim>\<open>os\<close>. The host is
  modelled as a tree of regular files (their bytes) and directories (their entries by
  name), together with the working directory of the process as \<^verbatim>\<open>os.Getwd\<close> reports it
  (\<open>None\<close> when it cannot be determined). There are no symbolic links, permissions or
  times in the model, and an entry name is taken to be a valid file name (not empty, not
  \<^verbatim>\<open>.\<close> or \<^verbatim>\<open>..\<close>, without a slash). The working directory, when there is one, is taken to
  name an existing directory.
\<close>

type_synonym byte = "8 word"

datatype node = File "byte list" | Dir "(string \<times> node) list"

record os_state =
  tree :: node
  cwd :: "string option"

definition is_Dir :: "node \<Rightarrow> bool" where
  "is_Dir n = (case n of Dir _ \<Rightarrow> True | File _ \<Rightarrow> False)"

text \<open>The node at the end of a list of names, from a given directory: \<open>ENOTDIR\<close> when the way
  leads through a regular file, \<open>ENOENT\<close> when a name is missing.\<close>

fun lookup :: "node \<Rightarrow> string list \<Rightarrow> errno + node" where
  "lookup n [] = Inr n"
| "lookup n (e # es) =
     (case n of
        File _ \<Rightarrow> Inl ENOTDIR
      | Dir ents \<Rightarrow>
          (case map_of ents e of
             None \<Rightarrow> Inl ENOENT
           | Some n' \<Rightarrow> lookup n' es))"

text \<open>The tree with the node at a path replaced, or added to its parent directory.\<close>

fun put_node :: "node \<Rightarrow> string list \<Rightarrow> node \<Rightarrow> node" where
  "put_node n [] v = v"
| "put_node n (e # es) v =
     (case n of
        File c \<Rightarrow> File c
      | Dir ents \<Rightarrow>
          (case map_of ents e of
             None \<Rightarrow> (if es = [] then Dir (AList.update e v ents) else Dir ents)
           | Some n' \<Rightarrow> Dir (AList.update e (put_node n' es v) ents)))"

text \<open>The tree without the entry at a path.\<close>

fun del_node :: "node \<Rightarrow> string list \<Rightarrow> node" where
  "del_node n [] = n"
| "del_node n (e # es) =
     (case n of
        File c \<Rightarrow> File c
      | Dir ents \<Rightarrow>
          (if es = [] then Dir (AList.delete e ents)
           else (case map_of ents e of
                   None \<Rightarrow> Dir ents
                 | Some n' \<Rightarrow> Dir (AList.update e (del_node n' es) ents))))"

definition os_Getwd :: "os_state \<Rightarrow> error + string" where
  "os_Getwd os =
     (case cwd os of
        None \<Rightarrow> Inl (SyscallError ''getwd'' ENOENT)
      | Some wd \<Rightarrow> Inr wd)"

text \<open>How the host resolves the path of a system call: the empty path names nothing, a
  relative path starts at the working directory. Without symbolic links the names from the
  root are those of the cleaned absolute path.\<close>

definition resolve :: "os_state \<Rightarrow> string \<Rightarrow> errno + string list" where
  "resolve os p =
     (if p = [] then Inl ENOENT
      else if is_rooted p then Inr (clean_elems p)
      else (case os_Getwd os of
              Inl _ \<Rightarrow> Inl ENOENT
            | Inr wd \<Rightarrow> Inr (clean_elems (filepath_Join [wd, p]))))"

definition os_node :: "os_state \<Rightarrow> string \<Rightarrow> errno + node" where
  "os_node os p =
     (case resolve os p of
        Inl e \<Rightarrow> Inl e
      | Inr els \<Rightarrow> lookup (tree os) els)"

text \<open>\<^verbatim>\<open>os.FileInfo\<close>: name, size and whether the node is a directory. The size the host
  reports for a directory depends on the file system; the model says 0.\<close>

record FileInfo =
  fi_Name :: string
  fi_Size :: int
  fi_IsDir :: bool

definition node_info :: "string \<Rightarrow> node \<Rightarrow> FileInfo" where
  "node_info name n =
     (case n of
        File c \<Rightarrow> \<lparr>fi_Name = name, fi_Size = int (length c), fi_IsDir = False\<rparr>
      | Dir _ \<Rightarrow> \<lparr>fi_Name = name, fi_Size = 0, fi_IsDir = True\<rparr>)"

definition os_Lstat :: "os_state \<Rightarrow> string \<Rightarrow> error + FileInfo" where
  "os_Lstat os p =
     (case os_node os p of
        Inl e \<Rightarrow> Inl (PathError ''lstat'' p e)
      | Inr n \<Rightarrow> Inr (node_info (basename p) n))"

text \<open>\<^verbatim>\<open>filepath.Abs\<close>: a rooted path cleaned, any other joined to the working directory.\<close>

definition filepath_Abs :: "os_state \<Rightarrow> string \<Rightarrow> error + string" where
  "filepath_Abs os p =
     (if is_rooted p then Inr (filepath_Clean p)
      else (case os_Getwd os of
              Inl e \<Rightarrow> Inl e
            | Inr wd \<Rightarrow> Inr (filepath_Join [wd, p])))"

text \<open>\<^verbatim>\<open>os.Remove\<close>: a regular file or an empty directory, never the root.\<close>

definition os_Remove :: "os_state \<Rightarrow> string \<Rightarrow> os_state \<times> error option" where
  "os_Remove os p =
     (case resolve os p of
        Inl e \<Rightarrow> (os, Some (PathError ''remove'' p e))
      | Inr els \<Rightarrow>
          (if els = [] then (os, Some (PathError ''remove'' p EBUSY))
           else (case lookup (tree os) els of
                   Inl e \<Rightarrow> (os, Some (PathError ''remove'' p e))
                 | Inr (File _) \<Rightarrow> (os\<lparr>tree := del_node (tree os) els\<rparr>, None)
                 | Inr (Dir ents) \<Rightarrow>
                     (if ents \<noteq> [] then (os, Some (PathError ''remove'' p ENOTEMPTY))
                      else (os\<lparr>tree := del_node (tree os) els\<rparr>, None)))))"

text \<open>An open file (\<^verbatim>\<open>*os.File\<close>): the name it was opened with, the node it refers to, the
  offset of the next read or write, and whether it was opened with \<^verbatim>\<open>O_APPEND\<close>.\<close>

record os_File =
  f_name :: string
  f_elems :: "string list"
  f_pos :: int
  f_append :: bool

text \<open>\<^verbatim>\<open>os.Create\<close>, that is \<^verbatim>\<open>O_RDWR|O_CREATE|O_TRUNC\<close>: the parent must be an existing directory
  and the path must not name a directory; the file is created or emptied.\<close>

definition os_Create :: "os_state \<Rightarrow> string \<Rightarrow> os_state \<times> (error + os_File)" where
  "os_Create os p =
     (case resolve os p of
        Inl e \<Rightarrow> (os, Inl (PathError ''open'' p e))
      | Inr els \<Rightarrow>
          (if els = [] then (os, Inl (PathError ''open'' p EISDIR))
           else (case lookup (tree os) (butlast els) of
                   Inl e \<Rightarrow> (os, Inl (PathError ''open'' p e))
                 | Inr (File _) \<Rightarrow> (os, Inl (PathError ''open'' p ENOTDIR))
                 | Inr (Dir ents) \<Rightarrow>
                     (case map_of ents (last els) of
                        Some (Dir _) \<Rightarrow> (os, Inl (PathError ''open'' p EISDIR))
                      | _ \<Rightarrow>
                          (os\<lparr>tree := put_node (tree os) els (File [])\<rparr>,
                           Inr \<lparr>f_name = p, f_elems = els, f_pos = 0, f_append = False\<rparr>)))))"

text \<open>\<^verbatim>\<open>os.OpenFile(name, os.O_APPEND|os.O_RDWR, 0660)\<close>: the file must exist and be regular.\<close>

definition os_OpenFile_append :: "os_state \<Rightarrow> string \<Rightarrow> error + os_File" where
  "os_OpenFile_append os p =
     (case resolve os p of
        Inl e \<Rightarrow> Inl (PathError ''open'' p e)
      | Inr els \<Rightarrow>
          (case lookup (tree os) els of
             Inl e \<Rightarrow> Inl (PathError ''open'' p e)
           | Inr (Dir _) \<Rightarrow> Inl (PathError ''open'' p EISDIR)
           | Inr (File _) \<Rightarrow> Inr \<lparr>f_name = p, f_elems = els, f_pos = 0, f_append = True\<rparr>))"

text \<open>\<^verbatim>\<open>os.Open\<close>, read-only: any existing node can be opened.\<close>

definition os_Open :: "os_state \<Rightarrow> string \<Rightarrow> error + os_File" where
  "os_Open os p =
     (case resolve os p of
        Inl e \<Rightarrow> Inl (PathError ''open'' p e)
      | Inr els \<Rightarrow>
          (case lookup (tree os) els of
             Inl e \<Rightarrow> Inl (PathError ''open'' p e)
           | Inr _ \<Rightarrow> Inr \<lparr>f_name = p, f_elems = els, f_pos = 0, f_append = False\<rparr>))"

definition File_Stat :: "os_state \<Rightarrow> os_File \<Rightarrow> error + FileInfo" where
  "File_Stat os f =
     (case lookup (tree os) (f_elems f) of
        Inl e \<Rightarrow> Inl (PathError ''stat'' (f_name f) e)
      | Inr n \<Rightarrow> Inr (node_info (basename (f_name f)) n))"

datatype whence = SeekStart | SeekCurrent | SeekEnd

text \<open>\<^verbatim>\<open>(*os.File).Seek\<close>: a negative target is refused and leaves the offset where it was; an
  offset past the end is allowed.\<close>

definition File_Seek :: "os_state \<Rightarrow> os_File \<Rightarrow> int \<Rightarrow> whence \<Rightarrow> os_File \<times> (error + int)" where
  "File_Seek os f offset w =
     (case lookup (tree os) (f_elems f) of
        Inr (File c) \<Rightarrow>
          (let target = (case w of SeekStart \<Rightarrow> offset
                                 | SeekCurrent \<Rightarrow> f_pos f + offset
                                 | SeekEnd \<Rightarrow> int (length c) + offset)
           in if target < 0 then (f, Inl (PathError ''seek'' (f_name f) EINVAL))
              else (f\<lparr>f_pos := target\<rparr>, Inr target))
      | Inr (Dir _) \<Rightarrow>
          (if (case w of SeekStart \<Rightarrow> offset | SeekCurrent \<Rightarrow> f_pos f + offset | SeekEnd \<Rightarrow> offset) < 0
           then (f, Inl (PathError ''seek'' (f_name f) EINVAL))
           else (f, Inr 0))
      | Inl e \<Rightarrow> (f, Inl (PathError ''seek'' (f_name f) EBADF)))"

text \<open>Everything an open file still yields to its reader: the bytes from its offset on.\<close>

definition io_ReadAll :: "os_state \<Rightarrow> os_File \<Rightarrow> error + byte list" where
  "io_ReadAll os f =
     (case lookup (tree os) (f_elems f) of
        Inr (File c) \<Rightarrow> Inr (drop (nat (f_pos f)) c)
      | Inr (Dir _) \<Rightarrow> Inl (PathError ''read'' (f_name f) EISDIR)
      | Inl e \<Rightarrow> Inl (PathError ''read'' (f_name f) EBADF))"

text \<open>An \<^verbatim>\<open>io.Reader\<close>: the bytes it delivers, and the error that ends them (\<open>None\<close> for the
  end of the stream).\<close>

record io_Reader =
  r_data :: "byte list"
  r_err :: "error option"

definition write_at :: "byte list \<Rightarrow> nat \<Rightarrow> byte list \<Rightarrow> byte list" where
  "write_at c pos d = take pos c @ replicate (pos - length c) 0 @ d @ drop (pos + length d) c"

text \<open>\<^verbatim>\<open>io.Copy(dst, src)\<close> into an open file: the bytes of the reader are written at the offset
  of the file, or at its end when it was opened for appending; the count of bytes written
  is returned with the error of the reader.\<close>

definition io_Copy ::
  "os_state \<Rightarrow> os_File \<Rightarrow> io_Reader \<Rightarrow> os_state \<times> os_File \<times> int \<times> error option" where
  "io_Copy os dst src =
     (case lookup (tree os) (f_elems dst) of
        Inr (File c) \<Rightarrow>
          (let c' = (if f_append dst then c @ r_data src else write_at c (nat (f_pos dst)) (r_data src))
           in (os\<lparr>tree := put_node (tree os) (f_elems dst) (File c')\<rparr>,
               dst\<lparr>f_pos := (if f_append dst then int (length c')
                              else f_pos dst + int (length (r_data src)))\<rparr>,
               int (length (r_data src)),
               r_err src))
      | _ \<Rightarrow> (os, dst, 0, Some (PathError ''write'' (f_name dst) EBADF)))"

text \<open>\<^verbatim>\<open>os.Mkdir\<close> on the names of a path: the parent must be a directory without that entry.\<close>

definition os_Mkdir_elems :: "node \<Rightarrow> string list \<Rightarrow> errno + node" where
  "os_Mkdir_elems t els =
     (if els = [] then Inl EEXIST
      else (case lookup t (butlast els) of
              Inl e \<Rightarrow> Inl e
            | Inr (File _) \<Rightarrow> Inl ENOTDIR
            | Inr (Dir ents) \<Rightarrow>
                (case map_of ents (last els) of
                   Some _ \<Rightarrow> Inl EEXIST
                 | None \<Rightarrow> Inr (put_node t els (Dir [])))))"

text \<open>\<^verbatim>\<open>os.MkdirAll\<close> makes the parent of a path before the path itself. The parent is the
  path without its trailing slashes, its last element and the slash in front of that; there
  is none (the empty string here) when what is left is empty.\<close>

definition MkdirAll_parent :: "string \<Rightarrow> string" where
  "MkdirAll_parent path =
     (let j = length (dropWhile (\<lambda>c. c \<noteq> CHR ''/'') (dropWhile (\<lambda>c. c = CHR ''/'') (rev path)))
      in if 1 < j then take (j - 1) path else [])"

lemma MkdirAll_parent_shorter:
  "MkdirAll_parent path \<noteq> [] \<Longrightarrow> length (MkdirAll_parent path) < length path"
proof -
  let ?j = "length (dropWhile (\<lambda>c. c \<noteq> CHR ''/'') (dropWhile (\<lambda>c. c = CHR ''/'') (rev path)))"
  assume ne: "MkdirAll_parent path \<noteq> []"
  then have j: "1 < ?j" by (auto simp: MkdirAll_parent_def Let_def split: if_splits)
  have "?j \<le> length (dropWhile (\<lambda>c. c = CHR ''/'') (rev path))" by (rule length_dropWhile_le)
  also have "\<dots> \<le> length (rev path)" by (rule length_dropWhile_le)
  finally have "?j \<le> length path" by simp
  then show ?thesis using j by (simp add: MkdirAll_parent_def Let_def)
qed

text \<open>The first path of that chain of parents: the one \<^verbatim>\<open>os.MkdirAll\<close> hands to \<^verbatim>\<open>os.Mkdir\<close>
  first when nothing on the way exists.\<close>

function MkdirAll_top :: "string \<Rightarrow> string" where
  "MkdirAll_top path =
     (if MkdirAll_parent path = [] then path else MkdirAll_top (MkdirAll_parent path))"
  by pat_completeness auto
termination
  by (relation "measure length") (auto simp: MkdirAll_parent_shorter)

declare MkdirAll_top.simps [simp del]

text \<open>The path a number of parents up from a path, as far as there are parents.\<close>

fun MkdirAll_up :: "nat \<Rightarrow> string \<Rightarrow> string" where
  "MkdirAll_up 0 path = path"
| "MkdirAll_up (Suc k) path =
     (if MkdirAll_parent path = [] then path else MkdirAll_up k (MkdirAll_parent path))"

text \<open>\<^verbatim>\<open>os.MkdirAll\<close> on the names of a path, as the library does it: nothing to do for an
  existing directory, \<open>ENOTDIR\<close> for any other existing node; else the parent is made first
  and then the directory itself, and when that fails the library looks at the path once
  more and is content if it finds a directory. The library returns the error of the step
  that failed unchanged, so an error comes with the number of parents taken to get from the
  path to the one that failed.\<close>

function MkdirAll_elems :: "node \<Rightarrow> string list \<Rightarrow> (errno \<times> nat) + node" where
  "MkdirAll_elems t els =
     (case lookup t els of
        Inr (Dir _) \<Rightarrow> Inr t
      | Inr (File _) \<Rightarrow> Inl (ENOTDIR, 0)
      | Inl _ \<Rightarrow>
          (case (if els = [] then Inr t else MkdirAll_elems t (butlast els)) of
             Inl (e, up) \<Rightarrow> Inl (e, Suc up)
           | Inr t' \<Rightarrow>
               (case os_Mkdir_elems t' els of
                  Inr t'' \<Rightarrow> Inr t''
                | Inl e \<Rightarrow>
                    (case lookup t' els of
                       Inr (Dir _) \<Rightarrow> Inr t'
                     | _ \<Rightarrow> Inl (e, 0)))))"
  by pat_completeness auto
termination
  by (relation "measure (\<lambda>(t, els). length els)") auto

declare MkdirAll_elems.simps [simp del]

text \<open>\<^verbatim>\<open>os.MkdirAll\<close>. Its error is the \<^verbatim>\<open>*PathError\<close> of the step that failed, which names the
  path of that step: the path itself or one of its parents. A path that names no place
  fails with \<open>ENOENT\<close> where the first directory would be made.\<close>

definition os_MkdirAll :: "os_state \<Rightarrow> string \<Rightarrow> os_state \<times> error option" where
  "os_MkdirAll os p =
     (case resolve os p of
        Inl e \<Rightarrow> (os, Some (PathError ''mkdir'' (MkdirAll_top p) e))
      | Inr els \<Rightarrow>
          (case MkdirAll_elems (tree os) els of
             Inl (e, up) \<Rightarrow> (os, Some (PathError ''mkdir'' (MkdirAll_up up p) e))
           | Inr t' \<Rightarrow> (os\<lparr>tree := t'\<rparr>, None)))"

text \<open>\<^verbatim>\<open>os.Rename\<close>, that is \<^verbatim>\<open>rename(2)\<close>: the old path must exist and the parent of the new one
  must be a directory; a regular file replaces a regular file, a directory replaces an
  empty directory; a directory cannot be moved below itself, and the root cannot be moved
  or replaced. Renaming a node to itself does nothing.\<close>

definition os_Rename :: "os_state \<Rightarrow> string \<Rightarrow> string \<Rightarrow> os_state \<times> error option" where
  "os_Rename os oldpath newpath =
     (let fails = (\<lambda>e. (os, Some (LinkError ''rename'' oldpath newpath e))) in
      case resolve os oldpath of
        Inl e \<Rightarrow> fails e
      | Inr old \<Rightarrow>
     (case resolve os newpath of
        Inl e \<Rightarrow> fails e
      | Inr new \<Rightarrow>
     (case lookup (tree os) old of
        Inl e \<Rightarrow> fails e
      | Inr n \<Rightarrow>
     (case lookup (tree os) (butlast new) of
        Inl e \<Rightarrow> fails e
      | Inr (File _) \<Rightarrow> fails ENOTDIR
      | Inr (Dir ents) \<Rightarrow>
          (if old = [] \<or> new = [] then fails EBUSY
           else if old = new then (os, None)
           else if take (length old) new = old then fails EINVAL
           else
             (let moved = (os\<lparr>tree := put_node (del_node (tree os) old) new n\<rparr>, None) in
              case (n, map_of ents (last new)) of
                (_, None) \<Rightarrow> moved
              | (File _, Some (File _)) \<Rightarrow> moved
              | (File _, Some (Dir _)) \<Rightarrow> fails EISDIR
              | (Dir _, Some (File _)) \<Rightarrow> fails ENOTDIR
              | (Dir _, Some (Dir ents')) \<Rightarrow> (if ents' \<noteq> [] then fails ENOTEMPTY else moved)))))))"


section \<open>Walking a directory tree\<close>

text \<open>
  \<^verbatim>\<open>filepath.Walk\<close> calls its function on the root and then, for a directory, on every entry
  in the order of the names, descending into directories. The function it calls takes the
  path, the \<^verbatim>\<open>FileInfo\<close> (nil when \<^verbatim>\<open>Lstat\<close> failed) and the error of \<^verbatim>\<open>Lstat\<close>; here it also
  threads a state. When it returns \<^verbatim>\<open>SkipDir\<close> on a directory, that directory is not entered
  and the walk goes on with the next name; any other error ends the walk.
\<close>

type_synonym 's WalkFunc =
  "string \<Rightarrow> FileInfo option \<Rightarrow> error option \<Rightarrow> 's \<Rightarrow> error option \<times> 's"

text \<open>The sorted names of the entries of a directory.\<close>

definition readDirNames :: "(string \<times> node) list \<Rightarrow> string list" where
  "readDirNames ents = sort (map fst ents)"

lemma map_of_size:
  "map_of ents name = Some n \<Longrightarrow> size n < Suc (size_list (size_prod (\<lambda>_. 0) size) ents)"
  by (induction ents) (auto split: if_splits)

function walk :: "'s WalkFunc \<Rightarrow> string \<Rightarrow> node \<Rightarrow> 's \<Rightarrow> error option \<times> 's"
  and walk_names ::
    "'s WalkFunc \<Rightarrow> string \<Rightarrow> (string \<times> node) list \<Rightarrow> string list \<Rightarrow> 's \<Rightarrow> error option \<times> 's"
where
  "walk walkFn path (File c) s = walkFn path (Some (node_info (basename path) (File c))) None s"
| "walk walkFn path (Dir ents) s =
     (case walkFn path (Some (node_info (basename path) (Dir ents))) None s of
        (Some err1, s') \<Rightarrow> (Some err1, s')
      | (None, s') \<Rightarrow> walk_names walkFn path ents (readDirNames ents) s')"
| "walk_names walkFn path ents [] s = (None, s)"
| "walk_names walkFn path ents (name # names) s =
     (let filename = filepath_Join [path, name] in
      case map_of ents name of
        None \<Rightarrow>
          (case walkFn filename None (Some (PathError ''lstat'' filename ENOENT)) s of
             (Some err, s') \<Rightarrow>
               (if err \<noteq> SkipDir then (Some err, s') else walk_names walkFn path ents names s')
           | (None, s') \<Rightarrow> walk_names walkFn path ents names s')
      | Some n \<Rightarrow>
          (case walk walkFn filename n s of
             (Some err, s') \<Rightarrow>
               (if \<not> is_Dir n \<or> err \<noteq> SkipDir then (Some err, s')
                else walk_names walkFn path ents names s')
           | (None, s') \<Rightarrow> walk_names walkFn path ents names s'))"
  by pat_completeness auto
termination
  by (relation "inv_image (less_than <*lex*> less_than)
        (\<lambda>x. case x of
           Inl (walkFn, path, n, s) \<Rightarrow> (Suc (size n), 0)
         | Inr (walkFn, path, ents, names, s) \<Rightarrow>
             (Suc (size_list (size_prod (\<lambda>_. 0) size) ents), Suc (length names)))")
     (auto dest: map_of_size)

definition filepath_Walk :: "os_state \<Rightarrow> string \<Rightarrow> 's WalkFunc \<Rightarrow> 's \<Rightarrow> error option \<times> 's" where
  "filepath_Walk os root walkFn s =
     (case (case os_node os root of
              Inl e \<Rightarrow> walkFn root None (Some (PathError ''lstat'' root e)) s
            | Inr n \<Rightarrow> walk walkFn root n s) of
        (Some err, s') \<Rightarrow> (if err = SkipDir then (None, s') else (Some err, s'))
      | (None, s') \<Rightarrow> (None, s'))"


section \<open>The file driver\<close>

type_synonym FileMode = "32 word"

definition os_ModeDir :: FileMode where
  "os_ModeDir = push_bit 31 1"

definition os_ModePerm :: FileMode where
  "os_ModePerm = 511"

text \<open>The permission oracle \<^verbatim>\<open>Perm\<close> the driver embeds: mode, owner and group of a path, each
  of which can fail.\<close>

record Perm =
  GetMode :: "string \<Rightarrow> error + FileMode"
  GetOwner :: "string \<Rightarrow> error + string"
  GetGroup :: "string \<Rightarrow> error + string"

record FileDriver =
  RootPath :: string
  Perm :: Perm

text \<open>\<^verbatim>\<open>FileInfoEx\<close>: the \<^verbatim>\<open>os.FileInfo\<close> with mode, owner and group from the oracle.\<close>

record FileInfoEx = FileInfo +
  fx_mode :: FileMode
  fx_owner :: string
  fx_group :: string

definition FileInfoEx_of :: "FileInfo \<Rightarrow> FileMode \<Rightarrow> string \<Rightarrow> string \<Rightarrow> FileInfoEx" where
  "FileInfoEx_of r m ow gr =
     \<lparr>fi_Name = fi_Name r, fi_Size = fi_Size r, fi_IsDir = fi_IsDir r,
      fx_mode = m, fx_owner = ow, fx_group = gr\<rparr>"

text \<open>\<^verbatim>\<open>FileDriver.ChangeDir\<close>.\<close>

definition ChangeDir :: "FileDriver \<Rightarrow> os_state \<Rightarrow> string \<Rightarrow> error option" where
  "ChangeDir f os path =
     (let rPath = realPath (RootPath f) path in
      case os_Lstat os rPath of
        Inl err \<Rightarrow> Some err
      | Inr r \<Rightarrow> (if fi_IsDir r then None else Some (ErrorString ''Not a directory'')))"

text \<open>\<^verbatim>\<open>FileDriver.Stat\<close>. What it prints on standard output is left out.\<close>

definition Stat :: "FileDriver \<Rightarrow> os_state \<Rightarrow> string \<Rightarrow> error + FileInfoEx" where
  "Stat f os path =
     (let basepath = realPath (RootPath f) path in
      case filepath_Abs os basepath of
        Inl err \<Rightarrow> Inl err
      | Inr rPath \<Rightarrow>
     (case os_Lstat os rPath of
        Inl err \<Rightarrow> Inl err
      | Inr r \<Rightarrow>
     (case GetMode (Perm f) path of
        Inl err \<Rightarrow> Inl err
      | Inr mode0 \<Rightarrow>
     (let mode1 = (if fi_IsDir r then mode0 OR os_ModeDir else mode0) in
      case GetOwner (Perm f) path of
        Inl err \<Rightarrow> Inl err
      | Inr owner0 \<Rightarrow>
     (case GetGroup (Perm f) path of
        Inl err \<Rightarrow> Inl err
      | Inr group0 \<Rightarrow> Inr (FileInfoEx_of r mode1 owner0 group0))))))"

text \<open>The callback of \<^verbatim>\<open>ListDir\<close> is a function of the caller with effects of its own. It is
  modelled by what it answers given the entries it was called on before; the list of the
  entries it was called on is the state of the walk.\<close>

type_synonym callback = "FileInfoEx list \<Rightarrow> FileInfoEx \<Rightarrow> error option"

text \<open>The function \<^verbatim>\<open>ListDir\<close> hands to \<^verbatim>\<open>filepath.Walk\<close>. The error of \<^verbatim>\<open>filepath.Rel\<close> is
  dropped by the source, which leaves the empty string.\<close>

definition ListDir_walkFn :: "FileDriver \<Rightarrow> string \<Rightarrow> callback \<Rightarrow> FileInfoEx list WalkFunc" where
  "ListDir_walkFn c basepath callback f info err calls =
     (case err of
        Some e \<Rightarrow> (Some e, calls)
      | None \<Rightarrow>
     (case info of
        None \<Rightarrow> (Some (Panic ''runtime error: invalid memory address or nil pointer dereference''), calls)
      | Some info \<Rightarrow>
     (let rPath = (case filepath_Rel basepath f of Inr r \<Rightarrow> r | Inl _ \<Rightarrow> []) in
      if rPath = fi_Name info then
        (case GetMode (Perm c) rPath of
           Inl e \<Rightarrow> (Some e, calls)
         | Inr mode0 \<Rightarrow>
        (let mode1 = (if fi_IsDir info then mode0 OR os_ModeDir else mode0) in
         case GetOwner (Perm c) rPath of
           Inl e \<Rightarrow> (Some e, calls)
         | Inr owner0 \<Rightarrow>
        (case GetGroup (Perm c) rPath of
           Inl e \<Rightarrow> (Some e, calls)
         | Inr group0 \<Rightarrow>
        (let fi = FileInfoEx_of info mode1 owner0 group0 in
         case callback calls fi of
           Some e \<Rightarrow> (Some e, calls @ [fi])
         | None \<Rightarrow>
             (if fi_IsDir info then (Some SkipDir, calls @ [fi]) else (None, calls @ [fi]))))))
      else (None, calls))))"

text \<open>\<^verbatim>\<open>FileDriver.ListDir\<close>: the error it returns and the entries the callback was called on.\<close>

definition ListDir ::
  "FileDriver \<Rightarrow> os_state \<Rightarrow> string \<Rightarrow> callback \<Rightarrow> error option \<times> FileInfoEx list" where
  "ListDir c os path callback =
     (let basepath = realPath (RootPath c) path
      in filepath_Walk os basepath (ListDir_walkFn c basepath callback) [])"

text \<open>\<^verbatim>\<open>FileDriver.DeleteDir\<close>, \<^verbatim>\<open>FileDriver.DeleteFile\<close> and \<^verbatim>\<open>FileDriver.Rename\<close>.\<close>

definition DeleteDir :: "FileDriver \<Rightarrow> os_state \<Rightarrow> string \<Rightarrow> os_state \<times> error option" where
  "DeleteDir f os path =
     (let rPath = realPath (RootPath f) path in
      case os_Lstat os rPath of
        Inl err \<Rightarrow> (os, Some err)
      | Inr r \<Rightarrow>
          (if fi_IsDir r then os_Remove os rPath
           else (os, Some (ErrorString ''Not a directory''))))"

definition DeleteFile :: "FileDriver \<Rightarrow> os_state \<Rightarrow> string \<Rightarrow> os_state \<times> error option" where
  "DeleteFile c os path =
     (let rPath = realPath (RootPath c) path in
      case os_Lstat os rPath of
        Inl err \<Rightarrow> (os, Some err)
      | Inr f \<Rightarrow>
          (if \<not> fi_IsDir f then os_Remove os rPath
           else (os, Some (ErrorString ''Not a file''))))"

definition Rename :: "FileDriver \<Rightarrow> os_state \<Rightarrow> string \<Rightarrow> string \<Rightarrow> os_state \<times> error option" where
  "Rename f os fromPath toPath =
     (let oldPath = realPath (RootPath f) fromPath;
          newPath = realPath (RootPath f) toPath
      in os_Rename os oldPath newPath)"

text \<open>\<^verbatim>\<open>FileDriver.MakeDir\<close>.\<close>

definition MakeDir :: "FileDriver \<Rightarrow> os_state \<Rightarrow> string \<Rightarrow> os_state \<times> error option" where
  "MakeDir f os path = (let rPath = realPath (RootPath f) path in os_MkdirAll os rPath)"

text \<open>\<^verbatim>\<open>FileDriver.GetFile\<close>. The result of \<^verbatim>\<open>r.Seek\<close> is dropped by the source.\<close>

definition GetFile :: "FileDriver \<Rightarrow> os_state \<Rightarrow> string \<Rightarrow> int \<Rightarrow> error + (int \<times> os_File)" where
  "GetFile f os path offset =
     (let rPath = realPath (RootPath f) path in
      case os_Open os rPath of
        Inl err \<Rightarrow> Inl err
      | Inr r \<Rightarrow>
     (case File_Stat os r of
        Inl err \<Rightarrow> Inl err
      | Inr info \<Rightarrow>
     (let r' = fst (File_Seek os r offset SeekStart)
      in Inr (fi_Size info, r'))))"

text \<open>\<^verbatim>\<open>fmt.Sprintln(a, err)\<close> for a string and an error.\<close>

definition fmt_Sprintln2 :: "string \<Rightarrow> error \<Rightarrow> string" where
  "fmt_Sprintln2 a err = a @ '' '' @ error_Error err @ [CHR 0x0A]"

text \<open>\<^verbatim>\<open>FileDriver.PutFile\<close>: the state of the host afterwards and the result.\<close>

definition PutFile ::
  "FileDriver \<Rightarrow> os_state \<Rightarrow> string \<Rightarrow> io_Reader \<Rightarrow> bool \<Rightarrow> os_state \<times> (error + int)" where
  "PutFile f os destPath data appendData =
     (let rPath = realPath (RootPath f) destPath in
      case (case os_Lstat os rPath of
              Inr r \<Rightarrow> (if fi_IsDir r then Inl (ErrorString ''A dir has the same name'') else Inr True)
            | Inl err \<Rightarrow>
                (if os_IsNotExist err then Inr False
                 else Inl (ErrorString (fmt_Sprintln2 ''Put File error:'' err)))) of
        Inl err \<Rightarrow> (os, Inl err)
      | Inr isExist \<Rightarrow>
     (let appendData' = (if appendData \<and> \<not> isExist then False else appendData) in
      if \<not> appendData' then
        (case (if isExist then os_Remove os rPath else (os, None)) of
           (os1, Some err) \<Rightarrow> (os1, Inl err)
         | (os1, None) \<Rightarrow>
        (case os_Create os1 rPath of
           (os2, Inl err) \<Rightarrow> (os2, Inl err)
         | (os2, Inr r) \<Rightarrow>
        (case io_Copy os2 r data of
           (os3, _, bytes, Some err) \<Rightarrow> (os3, Inl err)
         | (os3, _, bytes, None) \<Rightarrow> (os3, Inr bytes))))
      else
        (case os_OpenFile_append os rPath of
           Inl err \<Rightarrow> (os, Inl err)
         | Inr of0 \<Rightarrow>
        (case File_Seek os of0 0 SeekEnd of
           (of1, Inl err) \<Rightarrow> (os, Inl err)
         | (of1, Inr _) \<Rightarrow>
        (case io_Copy os of1 data of
           (os3, _, bytes, Some err) \<Rightarrow> (os3, Inl err)
         | (os3, _, bytes, None) \<Rightarrow> (os3, Inr bytes))))))"

text \<open>The parent directory of a path exists.\<close>

definition parent_is_dir :: "os_state \<Rightarrow> string \<Rightarrow> bool" where
  "parent_is_dir os p =
     (case resolve os p of
        Inl _ \<Rightarrow> False
      | Inr els \<Rightarrow>
          els \<noteq> [] \<and> (case lookup (tree os) (butlast els) of Inr (Dir _) \<Rightarrow> True | _ \<Rightarrow> False))"

text \<open>A path names a place on the host: it is not empty, and it is rooted or the working
  directory is known.\<close>

definition names_place :: "os_state \<Rightarrow> string \<Rightarrow> bool" where
  "names_place os p = (case resolve os p of Inl _ \<Rightarrow> False | Inr _ \<Rightarrow> True)"

text \<open>A regular file lies on a path: the path itself or one of its ancestors names one.\<close>

definition file_on_path :: "os_state \<Rightarrow> string \<Rightarrow> bool" where
  "file_on_path os p =
     (case resolve os p of
        Inl _ \<Rightarrow> False
      | Inr els \<Rightarrow>
          list_ex (\<lambda>k. case lookup (tree os) (take k els) of Inr (File _) \<Rightarrow> True | _ \<Rightarrow> False)
            [0..<Suc (length els)])"

text \<open>A path and all its ancestors name directories.\<close>

definition dirs_along :: "os_state \<Rightarrow> string \<Rightarrow> bool" where
  "dirs_along os p =
     (case resolve os p of
        Inl _ \<Rightarrow> False
      | Inr els \<Rightarrow>
          list_all (\<lambda>k. case lookup (tree os) (take k els) of Inr (Dir _) \<Rightarrow> True | _ \<Rightarrow> False)
            [0..<Suc (length els)])"

text \<open>A host for examples: the working directory \<^verbatim>\<open>/srv\<close> with the directory \<^verbatim>\<open>upload\<close> that
  \<^verbatim>\<open>main.go\<close> serves, a file and a subdirectory in it; a permission oracle that answers every
  question; and the driver \<^verbatim>\<open>main.go\<close> configures.\<close>

definition upload_os :: os_state where
  "upload_os =
     \<lparr>tree = Dir [(''srv'', Dir [(''upload'',
               Dir [(''hello.txt'', File [104, 101, 108, 108, 111]),
                    (''docs'', Dir [(''a.txt'', File [97])])])])],
      cwd = Some ''/srv''\<rparr>"

definition ok_Perm :: Perm where
  "ok_Perm = \<lparr>GetMode = (\<lambda>_. Inr os_ModePerm), GetOwner = (\<lambda>_. Inr ''root''),
              GetGroup = (\<lambda>_. Inr ''root'')\<rparr>"

definition upload_driver :: FileDriver where
  "upload_driver = \<lparr>RootPath = ''./upload'', Perm = ok_Perm\<rparr>"


section \<open>The server\<close>

text \<open>
  \<^verbatim>\<open>ServerOpts\<close> and \<^verbatim>\<open>Server\<close> of package \<^verbatim>\<open>server\<close>. Interface values that may be nil are
  options. The package variables \<^verbatim>\<open>defaultWelcomeMessage\<close>, \<^verbatim>\<open>featCmds\<close> and \<^verbatim>\<open>feats\<close> are
  declared elsewhere in the package; the functions that read them take them as
  parameters.
\<close>

datatype Logger = StdLogger | OtherLogger nat

type_synonym Auth = "string \<Rightarrow> string \<Rightarrow> error + bool"

type_synonym Driver = FileDriver

record DriverFactory =
  NewDriver :: "error + Driver"

record ServerOpts =
  Factory :: "DriverFactory option"
  Auth :: "Auth option"
  Name :: string
  Hostname :: string
  PublicIp :: string
  PassivePorts :: string
  Port :: int
  TLS :: bool
  CertFile :: string
  KeyFile :: string
  ExplicitFTPS :: bool
  WelcomeMessage :: string
  Logger :: "Logger option"

text \<open>The zero value \<^verbatim>\<open>ServerOpts{}\<close>.\<close>

definition zero_ServerOpts :: ServerOpts where
  "zero_ServerOpts =
     \<lparr>Factory = None, Auth = None, Name = [], Hostname = [], PublicIp = [], PassivePorts = [],
      Port = 0, TLS = False, CertFile = [], KeyFile = [], ExplicitFTPS = False,
      WelcomeMessage = [], Logger = None\<rparr>"

text \<open>\<^verbatim>\<open>if opts == nil { opts = &ServerOpts{} }\<close>\<close>

definition given_opts :: "ServerOpts option \<Rightarrow> ServerOpts" where
  "given_opts opts0 = (case opts0 of None \<Rightarrow> zero_ServerOpts | Some given \<Rightarrow> given)"

definition serverOptsWithDefaults :: "string \<Rightarrow> ServerOpts option \<Rightarrow> ServerOpts" where
  "serverOptsWithDefaults defaultWelcomeMessage opts0 =
     (let newOpts = zero_ServerOpts;
          opts = given_opts opts0;
          newOpts = (if Hostname opts = [] then newOpts\<lparr>Hostname := ''::''\<rparr>
                     else newOpts\<lparr>Hostname := Hostname opts\<rparr>);
          newOpts = (if Port opts = 0 then newOpts\<lparr>Port := 3000\<rparr>
                     else newOpts\<lparr>Port := Port opts\<rparr>);
          newOpts = newOpts\<lparr>Factory := Factory opts\<rparr>;
          newOpts = (if Name opts = [] then newOpts\<lparr>Name := ''Go FTP Server''\<rparr>
                     else newOpts\<lparr>Name := Name opts\<rparr>);
          newOpts = (if WelcomeMessage opts = []
                     then newOpts\<lparr>WelcomeMessage := defaultWelcomeMessage\<rparr>
                     else newOpts\<lparr>WelcomeMessage := WelcomeMessage opts\<rparr>);
          newOpts = (if Auth opts \<noteq> None then newOpts\<lparr>Auth := Auth opts\<rparr> else newOpts);
          newOpts = newOpts\<lparr>Logger := Some StdLogger\<rparr>;
          newOpts = (if Logger opts \<noteq> None then newOpts\<lparr>Logger := Logger opts\<rparr> else newOpts);
          newOpts = newOpts\<lparr>TLS := TLS opts\<rparr>;
          newOpts = newOpts\<lparr>KeyFile := KeyFile opts\<rparr>;
          newOpts = newOpts\<lparr>CertFile := CertFile opts\<rparr>;
          newOpts = newOpts\<lparr>ExplicitFTPS := ExplicitFTPS opts\<rparr>;
          newOpts = newOpts\<lparr>PublicIp := PublicIp opts\<rparr>;
          newOpts = newOpts\<lparr>PassivePorts := PassivePorts opts\<rparr>
      in newOpts)"

text \<open>\<^verbatim>\<open>strconv.Itoa\<close> and \<^verbatim>\<open>net.JoinHostPort\<close>; the latter puts a host that holds a colon (a
  literal IPv6 address) in brackets.\<close>

definition digit_char :: "nat \<Rightarrow> char" where
  "digit_char d = ''0123456789'' ! d"

function nat_digits :: "nat \<Rightarrow> string" where
  "nat_digits n = (if n < 10 then [digit_char n] else nat_digits (n div 10) @ [digit_char (n mod 10)])"
  by pat_completeness auto
termination
  by (relation "measure id") auto

declare nat_digits.simps [simp del]

definition strconv_Itoa :: "int \<Rightarrow> string" where
  "strconv_Itoa i = (if i < 0 then CHR ''-'' # nat_digits (nat (- i)) else nat_digits (nat i))"

definition net_JoinHostPort :: "string \<Rightarrow> string \<Rightarrow> string" where
  "net_JoinHostPort host port =
     (if CHR '':'' \<in> set host
      then ''['' @ host @ '']:'' @ port
      else host @ '':'' @ port)"

text \<open>A listener: whether it is a TLS listener, its address, and whether it was closed.\<close>

record Listener =
  l_tls :: bool
  l_addr :: string
  l_closed :: bool

record tls_Config =
  NextProtos :: "string list"
  Certificates :: "string list"

text \<open>What \<^verbatim>\<open>newConn\<close> sets of a \<^verbatim>\<open>Conn\<close>, but for the buffered reader and writer of the
  connection.\<close>

record Conn =
  namePrefix :: string
  conn :: nat
  driver :: Driver
  auth :: "Auth option"
  sessionID :: string
  c_logger :: "Logger option"
  c_tlsConfig :: "tls_Config option"

text \<open>
  The fields of \<^verbatim>\<open>Server\<close>, with the context and its cancel function as one flag (\<open>None\<close>
  before \<^verbatim>\<open>Serve\<close> made them, then whether the context is done), followed by what the server
  does to the world: the lines it logs with their session id, the sessions it started (each
  \<^verbatim>\<open>go ftpConn.Serve()\<close>), and the connections it closed itself.
\<close>

record Server =
  opts :: ServerOpts
  listenTo :: string
  logger :: "Logger option"
  listener :: "Listener option"
  tlsConfig :: "tls_Config option"
  ctx :: "bool option"
  feats :: string
  printed :: "(string \<times> string) list"
  sessions :: "Conn list"
  closed_conns :: "nat list"

definition NewServer :: "string \<Rightarrow> ServerOpts option \<Rightarrow> Server" where
  "NewServer defaultWelcomeMessage opts0 =
     (let opts = serverOptsWithDefaults defaultWelcomeMessage opts0
      in \<lparr>opts = opts,
          listenTo = net_JoinHostPort (Hostname opts) (strconv_Itoa (Port opts)),
          logger = Logger opts,
          listener = None, tlsConfig = None, ctx = None, feats = [],
          printed = [], sessions = [], closed_conns = []\<rparr>)"

definition newConn :: "Server \<Rightarrow> nat \<Rightarrow> string \<Rightarrow> Driver \<Rightarrow> Conn" where
  "newConn s tcpConn sid drv =
     \<lparr>namePrefix = ''/'', conn = tcpConn, driver = drv, auth = Auth (opts s),
      sessionID = sid, c_logger = logger s, c_tlsConfig = tlsConfig s\<rparr>"

definition doLogger :: "Server \<Rightarrow> string \<Rightarrow> string \<Rightarrow> Server" where
  "doLogger s sessionId msg = s\<lparr>printed := printed s @ [(sessionId, msg)]\<rparr>"

text \<open>What the host answers to the server: the key pair a certificate and key file hold, and
  whether an address can be listened on.\<close>

record net_env =
  LoadX509KeyPair :: "string \<Rightarrow> string \<Rightarrow> error + string"
  net_Listen :: "string \<Rightarrow> error option"

definition simpleTLSConfig :: "net_env \<Rightarrow> string \<Rightarrow> string \<Rightarrow> error + tls_Config" where
  "simpleTLSConfig env certFile keyFile =
     (case LoadX509KeyPair env certFile keyFile of
        Inl err \<Rightarrow> Inl err
      | Inr cert \<Rightarrow> Inr \<lparr>NextProtos = [''ftp''], Certificates = [cert]\<rparr>)"

text \<open>
  \<^verbatim>\<open>Serve\<close> runs beside the goroutines of the sessions and of whoever calls \<^verbatim>\<open>Shutdown\<close>. What
  happens while it waits in \<^verbatim>\<open>Accept\<close> is a list of events: a connection arrives (with the
  session id \<^verbatim>\<open>newSessionID\<close> will draw for it), \<^verbatim>\<open>Accept\<close> fails with an error, or another
  goroutine calls \<^verbatim>\<open>Shutdown\<close>. On a closed listener \<^verbatim>\<open>Accept\<close> fails at once. When the events
  are used up and the listener is open, \<^verbatim>\<open>Accept\<close> blocks for ever: \<^verbatim>\<open>Serve\<close> does not return,
  which is the result \<open>None\<close>.
\<close>

datatype event = Incoming nat string | AcceptFails error | ShutdownCalled

definition err_closed :: error where
  "err_closed = NetError False ''use of closed network connection''"

text \<open>\<^verbatim>\<open>ne, ok := err.(net.Error); ok && ne.Temporary()\<close>\<close>

definition is_temporary :: "error \<Rightarrow> bool" where
  "is_temporary err = (case err of NetError t _ \<Rightarrow> t | _ \<Rightarrow> False)"

definition Listener_Close :: "Listener \<Rightarrow> Listener \<times> error option" where
  "Listener_Close l = (if l_closed l then (l, Some err_closed) else (l\<lparr>l_closed := True\<rparr>, None))"

text \<open>\<^verbatim>\<open>Server.Shutdown\<close>.\<close>

definition Shutdown :: "Server \<Rightarrow> Server \<times> error option" where
  "Shutdown s =
     (let s1 = (if ctx s \<noteq> None then s\<lparr>ctx := Some True\<rparr> else s) in
      case listener s1 of
        Some l \<Rightarrow> (case Listener_Close l of (l', r) \<Rightarrow> (s1\<lparr>listener := Some l'\<rparr>, r))
      | None \<Rightarrow> (s1, None))"

text \<open>\<^verbatim>\<open>case <-s.ctx.Done()\<close> of the \<^verbatim>\<open>select\<close> in \<^verbatim>\<open>Serve\<close>.\<close>

definition ctx_Done :: "Server \<Rightarrow> bool" where
  "ctx_Done s = (ctx s = Some True)"

definition listener_closed :: "Server \<Rightarrow> bool" where
  "listener_closed s = (case listener s of Some l \<Rightarrow> l_closed l | None \<Rightarrow> False)"

text \<open>The branch \<^verbatim>\<open>if err != nil\<close> of the loop of \<^verbatim>\<open>Serve\<close>: \<open>Inl\<close> is what \<^verbatim>\<open>Serve\<close> returns,
  \<open>Inr\<close> is \<^verbatim>\<open>continue\<close>.\<close>

definition accept_failed :: "Server \<Rightarrow> error \<Rightarrow> (error \<times> Server) + Server" where
  "accept_failed s err =
     (if ctx_Done s then Inl (ErrServerClosed, s)
      else (let s' = doLogger s [] (''listening error: '' @ error_Error err) in
            if is_temporary err then Inr s' else Inl (err, s')))"

text \<open>The rest of the loop body, for an accepted connection. A nil \<^verbatim>\<open>Factory\<close> makes the call
  of \<^verbatim>\<open>NewDriver\<close> panic.\<close>

definition accepted :: "Server \<Rightarrow> nat \<Rightarrow> string \<Rightarrow> (error \<times> Server) + Server" where
  "accepted s tcpConn sid =
     (case Factory (opts s) of
        None \<Rightarrow> Inl (Panic ''runtime error: invalid memory address or nil pointer dereference'', s)
      | Some fac \<Rightarrow>
          (case NewDriver fac of
             Inl err \<Rightarrow>
               Inr ((doLogger s []
                       (''Error creating driver, aborting client connection: '' @ error_Error err))
                      \<lparr>closed_conns := closed_conns s @ [tcpConn]\<rparr>)
           | Inr drv \<Rightarrow> Inr (s\<lparr>sessions := sessions s @ [newConn s tcpConn sid drv]\<rparr>)))"

fun Serve_loop :: "Server \<Rightarrow> event list \<Rightarrow> (error \<times> Server) option" where
  "Serve_loop s [] =
     (if listener_closed s
      then (case accept_failed s err_closed of Inl r \<Rightarrow> Some r | Inr s' \<Rightarrow> None)
      else None)"
| "Serve_loop s (ev # evs) =
     (if listener_closed s
      then (case accept_failed s err_closed of Inl r \<Rightarrow> Some r | Inr s' \<Rightarrow> None)
      else (case ev of
              ShutdownCalled \<Rightarrow> Serve_loop (fst (Shutdown s)) evs
            | AcceptFails err \<Rightarrow>
                (case accept_failed s err of Inl r \<Rightarrow> Some r | Inr s' \<Rightarrow> Serve_loop s' evs)
            | Incoming tcpConn sid \<Rightarrow>
                (case accepted s tcpConn sid of Inl r \<Rightarrow> Some r | Inr s' \<Rightarrow> Serve_loop s' evs)))"

text \<open>\<^verbatim>\<open>Server.Serve\<close>: the listener and a fresh context are stored, then the loop runs.\<close>

definition Serve :: "Server \<Rightarrow> Listener \<Rightarrow> event list \<Rightarrow> (error \<times> Server) option" where
  "Serve s l evs = Serve_loop (s\<lparr>listener := Some l, ctx := Some False\<rparr>) evs"

text \<open>The package variables \<^verbatim>\<open>ListenAndServe\<close> reads: \<^verbatim>\<open>featCmds\<close>, and the format \<^verbatim>\<open>feats\<close> as
  the function \<^verbatim>\<open>fmt.Sprintf(feats, _)\<close>.\<close>

record pkg_vars =
  featCmds :: string
  Sprintf_feats :: "string \<Rightarrow> string"

text \<open>\<^verbatim>\<open>ListenAndServe\<close> up to its last line: the server as it is handed to \<^verbatim>\<open>Serve\<close> with the
  listener, or the error returned before.\<close>

definition ListenAndServe_listen ::
  "pkg_vars \<Rightarrow> net_env \<Rightarrow> Server \<Rightarrow> Server \<times> (error + Listener)" where
  "ListenAndServe_listen pkg env s =
     (let curFeats = featCmds pkg in
      case (if TLS (opts s) then
              (case simpleTLSConfig env (CertFile (opts s)) (KeyFile (opts s)) of
                 Inl err \<Rightarrow> Inl (s\<lparr>tlsConfig := None\<rparr>, err)
               | Inr cfg \<Rightarrow>
                   (let s1 = s\<lparr>tlsConfig := Some cfg\<rparr>;
                        curFeats1 = curFeats @ '' AUTH TLS'' @ [CHR 0x0A] @ '' PBSZ'' @ [CHR 0x0A]
                                      @ '' PROT'' @ [CHR 0x0A]
                    in if ExplicitFTPS (opts s)
                       then Inr (s1, curFeats1, False, net_Listen env (listenTo s))
                       else Inr (s1, curFeats1, True, net_Listen env (listenTo s))))
            else Inr (s, curFeats, False, net_Listen env (listenTo s))) of
        Inl (s1, err) \<Rightarrow> (s1, Inl err)
      | Inr (s1, curFeats1, tls_listener, Some err) \<Rightarrow> (s1, Inl err)
      | Inr (s1, curFeats1, tls_listener, None) \<Rightarrow>
          (let s2 = s1\<lparr>feats := Sprintf_feats pkg curFeats1\<rparr>;
               s3 = doLogger s2 [] (Name (opts s) @ '' listening on '' @ strconv_Itoa (Port (opts s)))
           in (s3, Inr \<lparr>l_tls = tls_listener, l_addr = listenTo s, l_closed = False\<rparr>)))"

definition ListenAndServe ::
  "pkg_vars \<Rightarrow> net_env \<Rightarrow> Server \<Rightarrow> event list \<Rightarrow> (error \<times> Server) option" where
  "ListenAndServe pkg env s evs =
     (case ListenAndServe_listen pkg env s of
        (s1, Inl err) \<Rightarrow> Some (err, s1)
      | (s1, Inr l) \<Rightarrow> Serve s1 l evs)"

text \<open>\<^verbatim>\<open>Serve\<close> has stored a listener and made its context.\<close>

definition started :: "Server \<Rightarrow> bool" where
  "started s = (listener s \<noteq> None \<and> ctx s \<noteq> None)"

text \<open>For examples: the options of \<^verbatim>\<open>main.go\<close>, a host on which certificates load and
  addresses are free, and package variables.\<close>

definition main_opts :: ServerOpts where
  "main_opts =
     zero_ServerOpts\<lparr>Factory := Some \<lparr>NewDriver = Inr upload_driver\<rparr>,
       Name := ''FtpServer'', Port := 2121, WelcomeMessage := ''welcome ftp server''\<rparr>"

definition free_env :: net_env where
  "free_env = \<lparr>LoadX509KeyPair = (\<lambda>c k. Inr (c @ k)), net_Listen = (\<lambda>_. None)\<rparr>"

definition some_pkg :: pkg_vars where
  "some_pkg = \<lparr>featCmds = '' UTF8'' @ [CHR 0x0A],
               Sprintf_feats = (\<lambda>x. ''Extensions supported:'' @ [CHR 0x0A] @ x)\<rparr>"


text \<open>A valid entry name: not empty, not \<^verbatim>\<open>.\<close> or \<^verbatim>\<open>..\<close>, without a slash.\<close>

definition valid_name :: "string \<Rightarrow> bool" where
  "valid_name n = (plain n \<and> n \<noteq> ''..'')"

text \<open>The permission oracle answers all three questions about a path.\<close>

definition perm_answers :: "Perm \<Rightarrow> string \<Rightarrow> bool" where
  "perm_answers pm name =
     ((case GetMode pm name of Inr _ \<Rightarrow> True | Inl _ \<Rightarrow> False) \<and>
      (case GetOwner pm name of Inr _ \<Rightarrow> True | Inl _ \<Rightarrow> False) \<and>
      (case GetGroup pm name of Inr _ \<Rightarrow> True | Inl _ \<Rightarrow> False))"

text \<open>The entry \<^verbatim>\<open>ListDir\<close> hands to its callback for a child: name, size and kind of the node,
  with mode, owner and group as the oracle answers for the name.\<close>

definition list_entry :: "FileDriver \<Rightarrow> string \<Rightarrow> node \<Rightarrow> FileInfoEx" where
  "list_entry c name n =
     FileInfoEx_of (node_info name n)
       (if is_Dir n then projr (GetMode (Perm c) name) OR os_ModeDir else projr (GetMode (Perm c) name))
       (projr (GetOwner (Perm c) name)) (projr (GetGroup (Perm c) name))"

text \<open>The string of a cleaned path with given elements.\<close>

definition render :: "bool \<Rightarrow> string list \<Rightarrow> string" where
  "render r es =
     (if r then ''/'' @ strings_Join es ''/''
      else if es = [] then ''.'' else strings_Join es ''/'')"


text \<open>More values for examples: a TCP and a TLS listener on the address of \<^verbatim>\<open>main.go\<close>, options
  with every field set, and a permission oracle that knows no owner.\<close>

definition tcp_listener :: Listener where
  "tcp_listener = \<lparr>l_tls = False, l_addr = ''[::]:2121'', l_closed = False\<rparr>"

definition tls_listener :: Listener where
  "tls_listener = \<lparr>l_tls = True, l_addr = ''[::]:2121'', l_closed = False\<rparr>"


definition no_owner_Perm :: Perm where
  "no_owner_Perm = ok_Perm\<lparr>GetOwner := (\<lambda>_. Inl (ErrorString ''no owner''))\<rparr>"


section \<open>The paths the driver hands to the host\<close>

text \<open>
  Each operation of the driver once more, this time returning beside its result the paths
  it has handed to the functions of package \<^verbatim>\<open>os\<close> that look at the host, in the order of the
  calls. \<^verbatim>\<open>filepath.Abs\<close> only joins its argument to the working directory and looks at no
  path. \<^verbatim>\<open>filepath.Walk\<close> is given one path and goes on to the entries below it; every path it
  calls \<^verbatim>\<open>Lstat\<close> on is one it then calls its function on, so its paths are recorded by a
  function that notes the path of each call. \<^verbatim>\<open>os.MkdirAll\<close> is given one path, which is
  recorded; that it goes up from there to the missing parents of that path is part of its
  work as modelled above.
\<close>

definition ChangeDir_traced :: "FileDriver \<Rightarrow> os_state \<Rightarrow> string \<Rightarrow> error option \<times> string list" where
  "ChangeDir_traced f os path =
     (let rPath = realPath (RootPath f) path in
      case os_Lstat os rPath of
        Inl err \<Rightarrow> (Some err, [rPath])
      | Inr r \<Rightarrow>
          (if fi_IsDir r then (None, [rPath])
           else (Some (ErrorString ''Not a directory''), [rPath])))"

definition Stat_traced ::
  "FileDriver \<Rightarrow> os_state \<Rightarrow> string \<Rightarrow> (error + FileInfoEx) \<times> string list" where
  "Stat_traced f os path =
     (let basepath = realPath (RootPath f) path in
      case filepath_Abs os basepath of
        Inl err \<Rightarrow> (Inl err, [])
      | Inr rPath \<Rightarrow>
     (case os_Lstat os rPath of
        Inl err \<Rightarrow> (Inl err, [rPath])
      | Inr r \<Rightarrow>
     (case GetMode (Perm f) path of
        Inl err \<Rightarrow> (Inl err, [rPath])
      | Inr mode0 \<Rightarrow>
     (let mode1 = (if fi_IsDir r then mode0 OR os_ModeDir else mode0) in
      case GetOwner (Perm f) path of
        Inl err \<Rightarrow> (Inl err, [rPath])
      | Inr owner0 \<Rightarrow>
     (case GetGroup (Perm f) path of
        Inl err \<Rightarrow> (Inl err, [rPath])
      | Inr group0 \<Rightarrow> (Inr (FileInfoEx_of r mode1 owner0 group0), [rPath]))))))"

definition visiting :: "'s WalkFunc \<Rightarrow> ('s \<times> string list) WalkFunc" where
  "visiting walkFn path info err sv =
     (case walkFn path info err (fst sv) of (e, s') \<Rightarrow> (e, (s', snd sv @ [path])))"

definition ListDir_traced ::
  "FileDriver \<Rightarrow> os_state \<Rightarrow> string \<Rightarrow> callback \<Rightarrow> (error option \<times> FileInfoEx list) \<times> string list" where
  "ListDir_traced c os path callback =
     (let basepath = realPath (RootPath c) path in
      case filepath_Walk os basepath (visiting (ListDir_walkFn c basepath callback)) ([], []) of
        (e, (calls, visited)) \<Rightarrow> ((e, calls), visited))"

definition DeleteDir_traced ::
  "FileDriver \<Rightarrow> os_state \<Rightarrow> string \<Rightarrow> (os_state \<times> error option) \<times> string list" where
  "DeleteDir_traced f os path =
     (let rPath = realPath (RootPath f) path in
      case os_Lstat os rPath of
        Inl err \<Rightarrow> ((os, Some err), [rPath])
      | Inr r \<Rightarrow>
          (if fi_IsDir r then (os_Remove os rPath, [rPath, rPath])
           else ((os, Some (ErrorString ''Not a directory'')), [rPath])))"

definition DeleteFile_traced ::
  "FileDriver \<Rightarrow> os_state \<Rightarrow> string \<Rightarrow> (os_state \<times> error option) \<times> string list" where
  "DeleteFile_traced c os path =
     (let rPath = realPath (RootPath c) path in
      case os_Lstat os rPath of
        Inl err \<Rightarrow> ((os, Some err), [rPath])
      | Inr f \<Rightarrow>
          (if \<not> fi_IsDir f then (os_Remove os rPath, [rPath, rPath])
           else ((os, Some (ErrorString ''Not a file'')), [rPath])))"

definition Rename_traced ::
  "FileDriver \<Rightarrow> os_state \<Rightarrow> string \<Rightarrow> string \<Rightarrow> (os_state \<times> error option) \<times> string list" where
  "Rename_traced f os fromPath toPath =
     (let oldPath = realPath (RootPath f) fromPath;
          newPath = realPath (RootPath f) toPath
      in (os_Rename os oldPath newPath, [oldPath, newPath]))"

definition MakeDir_traced ::
  "FileDriver \<Rightarrow> os_state \<Rightarrow> string \<Rightarrow> (os_state \<times> error option) \<times> string list" where
  "MakeDir_traced f os path =
     (let rPath = realPath (RootPath f) path in (os_MkdirAll os rPath, [rPath]))"

definition GetFile_traced ::
  "FileDriver \<Rightarrow> os_state \<Rightarrow> string \<Rightarrow> int \<Rightarrow> (error + (int \<times> os_File)) \<times> string list" where
  "GetFile_traced f os path offset =
     (let rPath = realPath (RootPath f) path in
      case os_Open os rPath of
        Inl err \<Rightarrow> (Inl err, [rPath])
      | Inr r \<Rightarrow>
     (case File_Stat os r of
        Inl err \<Rightarrow> (Inl err, [rPath])
      | Inr info \<Rightarrow>
     (let r' = fst (File_Seek os r offset SeekStart)
      in (Inr (fi_Size info, r'), [rPath]))))"

definition PutFile_traced ::
  "FileDriver \<Rightarrow> os_state \<Rightarrow> string \<Rightarrow> io_Reader \<Rightarrow> bool \<Rightarrow>
     (os_state \<times> (error + int)) \<times> string list" where
  "PutFile_traced f os destPath data appendData =
     (let rPath = realPath (RootPath f) destPath in
      case (case os_Lstat os rPath of
              Inr r \<Rightarrow> (if fi_IsDir r then Inl (ErrorString ''A dir has the same name'') else Inr True)
            | Inl err \<Rightarrow>
                (if os_IsNotExist err then Inr False
                 else Inl (ErrorString (fmt_Sprintln2 ''Put File error:'' err)))) of
        Inl err \<Rightarrow> ((os, Inl err), [rPath])
      | Inr isExist \<Rightarrow>
     (let appendData' = (if appendData \<and> \<not> isExist then False else appendData) in
      if \<not> appendData' then
        (case (if isExist then (os_Remove os rPath, [rPath, rPath]) else ((os, None), [rPath])) of
           ((os1, Some err), handed) \<Rightarrow> ((os1, Inl err), handed)
         | ((os1, None), handed) \<Rightarrow>
        (case os_Create os1 rPath of
           (os2, Inl err) \<Rightarrow> ((os2, Inl err), handed @ [rPath])
         | (os2, Inr r) \<Rightarrow>
        (case io_Copy os2 r data of
           (os3, _, bytes, Some err) \<Rightarrow> ((os3, Inl err), handed @ [rPath])
         | (os3, _, bytes, None) \<Rightarrow> ((os3, Inr bytes), handed @ [rPath]))))
      else
        (case os_OpenFile_append os rPath of
           Inl err \<Rightarrow> ((os, Inl err), [rPath, rPath])
         | Inr of0 \<Rightarrow>
        (case File_Seek os of0 0 SeekEnd of
           (of1, Inl err) \<Rightarrow> ((os, Inl err), [rPath, rPath])
         | (of1, Inr _) \<Rightarrow>
        (case io_Copy os of1 data of
           (os3, _, bytes, Some err) \<Rightarrow> ((os3, Inl err), [rPath, rPath])
         | (os3, _, bytes, None) \<Rightarrow> ((os3, Inr bytes), [rPath, rPath]))))))"

text \<open>The entry names of a tree are valid file names, as every host has them.\<close>

fun valid_names :: "node \<Rightarrow> bool" where
  "valid_names (File c) = True"
| "valid_names (Dir ents) = (\<forall>x \<in> set ents. valid_name (fst x) \<and> valid_names (snd x))"

text \<open>Every path of a list lies lexically under a root.\<close>

definition paths_under :: "string \<Rightarrow> string list \<Rightarrow> bool" where
  "paths_under root ps = list_all (lexically_under root) ps"


section \<open>Properties of the lexical path functions\<close>

lemma Split_ne: "strings_Split s c \<noteq> []"
  by (induction s) (auto split: list.splits)

lemma Split_no_sep: "e \<in> set (strings_Split s c) \<Longrightarrow> c \<notin> set e"
  by (induction s arbitrary: e) (auto split: if_splits list.splits)

lemma Split_single: "c \<notin> set e \<Longrightarrow> strings_Split e c = [e]"
  by (induction e) auto

lemma Split_append_sep:
  "c \<notin> set a \<Longrightarrow> strings_Split (a @ c # b) c = a # strings_Split b c"
  by (induction a) auto

lemma Split_Join:
  "es \<noteq> [] \<Longrightarrow> \<forall>e \<in> set es. c \<notin> set e \<Longrightarrow> strings_Split (strings_Join es [c]) c = es"
proof (induction es "[c]" rule: strings_Join.induct)
  case 1 then show ?case by simp
next
  case (2 e) then show ?case by (simp add: Split_single)
next
  case (3 e v va)
  then show ?case by (simp add: Split_append_sep)
qed

lemma Split_general_append:
  "strings_Split (a @ c # b) c = strings_Split a c @ strings_Split b c"
proof (induction a)
  case Nil then show ?case by simp
next
  case (Cons x xs)
  obtain w ws where w: "strings_Split xs c = w # ws"
    using Split_ne[of xs c] by (cases "strings_Split xs c") auto
  show ?case using Cons w by auto
qed

lemma dropWhile_snoc_dd:
  assumes "''..'' \<notin> set (dropWhile (\<lambda>e. e = ''..'') xs)" "xs \<noteq> []" "last xs = ''..''"
  shows "dropWhile (\<lambda>e. e = ''..'') xs = []"
proof (rule ccontr)
  let ?d = "dropWhile (\<lambda>e. e = ''..'') xs"
  assume ne: "?d \<noteq> []"
  have "last (takeWhile (\<lambda>e. e = ''..'') xs @ ?d) = last ?d" using ne by (rule last_appendR)
  then have "last xs = last ?d" by simp
  then have "''..'' \<in> set ?d" using ne assms(3) last_in_set[OF ne] by simp
  then show False using assms(1) by simp
qed

lemma dropWhile_butlast_subset:
  "set (dropWhile P (butlast xs)) \<subseteq> set (dropWhile P xs)"
  by (induction xs) (auto dest: in_set_butlastD)

lemma canon_step:
  assumes "canon r out" "CHR ''/'' \<notin> set e"
  shows "canon r (clean_elem r out e)"
proof -
  have pl: "\<forall>e \<in> set out. plain e" and dw: "''..'' \<notin> set (dropWhile (\<lambda>e. e = ''..'') out)"
    and rt: "r \<longrightarrow> ''..'' \<notin> set out"
    using assms by (simp_all add: canon_def)
  consider (skip) "e = [] \<or> e = ''.''"
    | (up) "e = ''..''" "out \<noteq> []" "last out \<noteq> ''..''"
    | (stay) "e = ''..''" "out = [] \<or> last out = ''..''" "r"
    | (keep) "e = ''..''" "out = [] \<or> last out = ''..''" "\<not> r"
    | (name) "e \<noteq> []" "e \<noteq> ''.''" "e \<noteq> ''..''"
    by blast
  then show ?thesis
  proof cases
    case skip
    then have "clean_elem r out e = out" by (auto simp: clean_elem_def)
    then show ?thesis using assms by simp
  next
    case up
    then have eq: "clean_elem r out e = butlast out" by (simp add: clean_elem_def)
    have 1: "\<forall>e \<in> set (butlast out). plain e" using pl by (meson in_set_butlastD)
    have 2: "''..'' \<notin> set (dropWhile (\<lambda>e. e = ''..'') (butlast out))"
      using dw dropWhile_butlast_subset[of "\<lambda>e. e = ''..''" out] by blast
    have 3: "r \<longrightarrow> ''..'' \<notin> set (butlast out)" using rt by (meson in_set_butlastD)
    show ?thesis unfolding eq canon_def using 1 2 3 by blast
  next
    case stay
    then have "clean_elem r out e = out" by (auto simp: clean_elem_def)
    then show ?thesis using assms by simp
  next
    case keep
    then have eq: "clean_elem r out e = out @ [''..'']" by (auto simp: clean_elem_def)
    have all: "\<forall>x \<in> set out. x = ''..''"
    proof (cases "out = []")
      case True then show ?thesis by simp
    next
      case False
      then have "last out = ''..''" using keep by simp
      then have "dropWhile (\<lambda>e. e = ''..'') out = []" using dropWhile_snoc_dd[OF dw False] by simp
      then show ?thesis by (simp add: dropWhile_eq_Nil_conv)
    qed
    have 1: "\<forall>e \<in> set (out @ [''..'']). plain e" using pl by (simp add: plain_def)
    have 2: "''..'' \<notin> set (dropWhile (\<lambda>e. e = ''..'') (out @ [''..'']))"
      using all by (simp add: dropWhile_append)
    show ?thesis unfolding eq canon_def using 1 2 keep by blast
  next
    case name
    then have eq: "clean_elem r out e = out @ [e]" by (simp add: clean_elem_def)
    have 1: "\<forall>x \<in> set (out @ [e]). plain x" using pl name assms(2) by (simp add: plain_def)
    have 2: "''..'' \<notin> set (dropWhile (\<lambda>e. e = ''..'') (out @ [e]))"
      using dw name by (simp add: dropWhile_append)
    have 3: "r \<longrightarrow> ''..'' \<notin> set (out @ [e])" using rt name by auto
    show ?thesis unfolding eq canon_def using 1 2 3 by blast
  qed
qed

lemma canon_foldl:
  "canon r out \<Longrightarrow> \<forall>e \<in> set es. CHR ''/'' \<notin> set e \<Longrightarrow> canon r (foldl (clean_elem r) out es)"
  by (induction es arbitrary: out) (auto simp: canon_step)

lemma canon_clean_elems: "canon (is_rooted p) (clean_elems p)"
  unfolding clean_elems_def
  by (rule canon_foldl) (auto simp: canon_def dest: Split_no_sep)

lemma foldl_canon_id:
  "canon r (out @ es) \<Longrightarrow> foldl (clean_elem r) out es = out @ es"
proof (induction es arbitrary: out)
  case Nil then show ?case by simp
next
  case (Cons e es)
  have c: "canon r ((out @ [e]) @ es)" using Cons.prems by simp
  have pl: "plain e" using Cons.prems by (simp add: canon_def)
  have "clean_elem r out e = out @ [e]"
  proof (cases "e = ''..''")
    case False
    then show ?thesis using pl by (simp add: clean_elem_def plain_def)
  next
    case True
    have nr: "\<not> r" using Cons.prems True by (auto simp: canon_def)
    have "''..'' \<notin> set (dropWhile (\<lambda>e. e = ''..'') (out @ e # es))"
      using Cons.prems by (simp add: canon_def)
    then have "\<forall>x \<in> set out. x = ''..''" using True
      by (auto simp: dropWhile_append split: if_splits)
    then have "out = [] \<or> last out = ''..''" by (cases out rule: rev_cases) auto
    then show ?thesis using True nr by (auto simp: clean_elem_def)
  qed
  then show ?case using Cons.IH[OF c] by simp
qed

lemma Join_not_rooted:
  assumes "es \<noteq> []" "hd es \<noteq> []" "CHR ''/'' \<notin> set (hd es)"
  shows "\<not> is_rooted (strings_Join es ''/'')"
proof -
  obtain e es' where es: "es = e # es'" using assms(1) by (cases es) auto
  then obtain c cs where e: "e = c # cs" "c \<noteq> CHR ''/''" using assms by (cases e) auto
  show ?thesis using es e by (cases es') (auto simp: is_rooted_def)
qed

lemma clean_elems_Clean: "clean_elems (filepath_Clean p) = clean_elems p"
proof -
  let ?xs = "clean_elems p"
  have cn: "canon (is_rooted p) ?xs" by (rule canon_clean_elems)
  have ns: "\<forall>e \<in> set ?xs. CHR ''/'' \<notin> set e" using cn by (auto simp: canon_def plain_def)
  show ?thesis
  proof (cases "p = []")
    case True
    then show ?thesis by (simp add: filepath_Clean_def clean_elems_def is_rooted_def clean_elem_def)
  next
    case pne: False
    show ?thesis
    proof (cases "is_rooted p")
      case True
      let ?J = "strings_Join ?xs ''/''"
      have A: "foldl (clean_elem True) [] (strings_Split ?J CHR ''/'') = ?xs"
      proof (cases "?xs = []")
        case True then show ?thesis by (simp add: clean_elem_def)
      next
        case False
        then have "strings_Split ?J CHR ''/'' = ?xs"
          using Split_Join[OF False, of "CHR ''/''"] ns by simp
        then show ?thesis using foldl_canon_id[of True "[]" ?xs] cn True by simp
      qed
      have "clean_elems (CHR ''/'' # ?J) =
              foldl (clean_elem True) [] (strings_Split (CHR ''/'' # ?J) CHR ''/'')"
        unfolding clean_elems_def is_rooted_def by simp
      also have "\<dots> = foldl (clean_elem True) (clean_elem True [] []) (strings_Split ?J CHR ''/'')"
        by simp
      also have "clean_elem True [] [] = []" by (simp add: clean_elem_def)
      finally have "clean_elems (CHR ''/'' # ?J) = ?xs" using A by simp
      then show ?thesis using True pne by (simp add: filepath_Clean_def)
    next
      case False
      show ?thesis
      proof (cases "?xs = []")
        case True
        have "clean_elems ''.'' = []" by (simp add: clean_elems_def is_rooted_def clean_elem_def)
        then show ?thesis using True False pne by (simp add: filepath_Clean_def)
      next
        case ne: False
        have "plain (hd ?xs)" using cn ne by (cases ?xs) (auto simp: canon_def)
        then have nr: "\<not> is_rooted (strings_Join ?xs ''/'')"
          using Join_not_rooted[OF ne] by (simp add: plain_def)
        have "strings_Split (strings_Join ?xs ''/'') CHR ''/'' = ?xs"
          using Split_Join[OF ne, of "CHR ''/''"] ns by simp
        then have "clean_elems (strings_Join ?xs ''/'') = ?xs"
          using foldl_canon_id[of False "[]" ?xs] cn False nr by (simp add: clean_elems_def)
        then show ?thesis using False pne ne by (simp add: filepath_Clean_def)
      qed
    qed
  qed
qed

lemma is_rooted_Clean: "is_rooted (filepath_Clean p) = is_rooted p"
proof (cases "p = [] \<or> is_rooted p")
  case True
  then show ?thesis by (auto simp: filepath_Clean_def is_rooted_def)
next
  case False
  have cn: "canon (is_rooted p) (clean_elems p)" by (rule canon_clean_elems)
  show ?thesis
  proof (cases "clean_elems p = []")
    case True
    then show ?thesis using False by (simp add: filepath_Clean_def is_rooted_def)
  next
    case ne: False
    have "plain (hd (clean_elems p))" using cn ne by (cases "clean_elems p") (auto simp: canon_def)
    then have "\<not> is_rooted (strings_Join (clean_elems p) ''/'')"
      using Join_not_rooted[OF ne] by (simp add: plain_def)
    then show ?thesis using False ne by (simp add: filepath_Clean_def)
  qed
qed


lemma Join_Cons2: "es \<noteq> [] \<Longrightarrow> strings_Join (r # es) sep = r @ sep @ strings_Join es sep"
  by (cases es) auto

lemma foldl_stays:
  "stays_below es (length S) \<Longrightarrow> ''..'' \<notin> set S \<Longrightarrow>
     \<exists>S'. foldl (clean_elem r) (R @ S) es = R @ S' \<and> ''..'' \<notin> set S'"
proof (induction es arbitrary: S)
  case Nil
  then show ?case by simp
next
  case (Cons e es)
  consider (skip) "e = [] \<or> e = ''.''" | (up) "e = ''..''" | (name) "e \<noteq> []" "e \<noteq> ''.''" "e \<noteq> ''..''"
    by blast
  then show ?case
  proof cases
    case skip
    then have 1: "clean_elem r (R @ S) e = R @ S" by (auto simp: clean_elem_def)
    have "stays_below es (length S)" using Cons.prems(1) skip by auto
    then show ?thesis using Cons.IH[OF _ Cons.prems(2)] 1 by simp
  next
    case up
    then have d: "0 < length S" "stays_below es (length S - 1)" using Cons.prems(1) by auto
    then have ne: "S \<noteq> []" by auto
    have "last S \<in> set S" using ne by simp
    then have "last S \<noteq> ''..''" using Cons.prems(2) by metis
    then have "last (R @ S) \<noteq> ''..''" using ne by simp
    then have 1: "clean_elem r (R @ S) e = R @ butlast S"
      using up ne by (simp add: clean_elem_def butlast_append)
    have 2: "stays_below es (length (butlast S))" using d by simp
    have 3: "''..'' \<notin> set (butlast S)" using Cons.prems(2) by (meson in_set_butlastD)
    show ?thesis using Cons.IH[OF 2 3] 1 by simp
  next
    case name
    then have 1: "clean_elem r (R @ S) e = R @ (S @ [e])" by (simp add: clean_elem_def)
    have 2: "stays_below es (length (S @ [e]))" using Cons.prems(1) name by simp
    have 3: "''..'' \<notin> set (S @ [e])" using Cons.prems(2) name by simp
    show ?thesis using Cons.IH[OF 2 3] 1 by simp
  qed
qed

lemma foldl_dropWhile_empty:
  "foldl (clean_elem r) out (dropWhile (\<lambda>e. e = []) es) = foldl (clean_elem r) out es"
  by (induction es) (auto simp: clean_elem_def)

lemma realPath_fold:
  "is_rooted (realPath root p) = is_rooted root \<and>
   clean_elems (realPath root p) =
     foldl (clean_elem (is_rooted root)) (clean_elems root) (strings_Split p CHR ''/'')"
proof (cases "root = []")
  case False
  let ?es = "strings_Split p CHR ''/''"
  let ?J = "strings_Join (root # ?es) ''/''"
  have ne: "?es \<noteq> []" by (rule Split_ne)
  have rp: "realPath root p = filepath_Clean ?J"
    using False by (simp add: realPath_def filepath_Join_def)
  have J: "?J = root @ CHR ''/'' # strings_Join ?es ''/''" using Join_Cons2[OF ne] by simp
  have rt: "is_rooted ?J = is_rooted root" using False unfolding J by (cases root) (auto simp: is_rooted_def)
  have "strings_Split (strings_Join ?es ''/'') CHR ''/'' = ?es"
    using Split_Join[OF ne, of "CHR ''/''"] Split_no_sep by fastforce
  then have sp: "strings_Split ?J CHR ''/'' = strings_Split root CHR ''/'' @ ?es"
    unfolding J by (simp add: Split_general_append)
  have "clean_elems ?J = foldl (clean_elem (is_rooted root)) (clean_elems root) ?es"
    unfolding clean_elems_def[of ?J] rt sp by (simp add: clean_elems_def)
  then show ?thesis using rp rt by (simp add: clean_elems_Clean is_rooted_Clean)
next
  case True
  let ?all = "strings_Split p CHR ''/''"
  let ?es = "dropWhile (\<lambda>e. e = []) ?all"
  have r0: "clean_elems [] = []" by (simp add: clean_elems_def is_rooted_def clean_elem_def)
  have nr0: "\<not> is_rooted root" using True by (simp add: is_rooted_def)
  have rp0: "realPath root p = (case ?es of [] \<Rightarrow> [] | es \<Rightarrow> filepath_Clean (strings_Join es ''/''))"
    using True by (simp add: realPath_def filepath_Join_def)
  have fd: "foldl (clean_elem False) [] ?es = foldl (clean_elem False) [] ?all"
    by (rule foldl_dropWhile_empty)
  show ?thesis
  proof (cases "?es = []")
    case e: True
    have "realPath root p = []" unfolding rp0 e by simp
    then show ?thesis using True r0 nr0 fd e by (simp add: is_rooted_def)
  next
    case ne: False
    let ?J = "strings_Join ?es ''/''"
    obtain a as where as: "?es = a # as" using ne by (cases ?es) auto
    have rp: "realPath root p = filepath_Clean ?J" unfolding rp0 as by simp
    have sub: "set ?es \<subseteq> set ?all" by (rule set_dropWhileD[THEN subsetI])
    have ns: "\<forall>e \<in> set ?es. CHR ''/'' \<notin> set e" using sub Split_no_sep by blast
    have h: "hd ?es \<noteq> []" using ne hd_dropWhile[of "\<lambda>e. e = []"] by blast
    have "hd ?es \<in> set ?es" using ne by simp
    then have nr: "\<not> is_rooted ?J" using Join_not_rooted[OF ne h] ns by blast
    have sp: "strings_Split ?J CHR ''/'' = ?es" using Split_Join[OF ne, of "CHR ''/''"] ns by simp
    have "clean_elems ?J = foldl (clean_elem False) [] ?all"
      unfolding clean_elems_def[of ?J] sp using nr fd by simp
    moreover have "is_rooted (realPath root p) = is_rooted root"
      unfolding rp is_rooted_Clean using nr nr0 by simp
    ultimately show ?thesis using rp True r0 nr0 by (simp add: clean_elems_Clean)
  qed
qed

lemma realPath_under:
  assumes "stays_within p"
  shows "lexically_under root (realPath root p)"
proof -
  have "stays_below (strings_Split p CHR ''/'') (length ([]::string list))"
    using assms by (simp add: stays_within_def)
  then obtain S' where S: "foldl (clean_elem (is_rooted root)) (clean_elems root @ []) (strings_Split p CHR ''/'') =
      clean_elems root @ S'" "''..'' \<notin> set S'"
    using foldl_stays[of "strings_Split p CHR ''/''" "[]" "is_rooted root" "clean_elems root"] by auto
  then show ?thesis using realPath_fold[of root p] by (simp add: lexically_under_def)
qed


section \<open>Properties of the file driver\<close>

subsection \<open>Stat\<close>

text \<open>
  Claim C9: \<^verbatim>\<open>Stat\<close> returns an error whenever \<^verbatim>\<open>GetMode\<close>, \<^verbatim>\<open>GetOwner\<close> or \<^verbatim>\<open>GetGroup\<close> of the
  permission oracle returns one for the path, whether or not the file exists; and it
  succeeds exactly when \<^verbatim>\<open>Lstat\<close> of the absolute physical path and all three calls of the
  oracle succeed, with the entry built from their answers.
\<close>

theorem Stat_needs_Perm:
  "((\<exists>e. GetMode (Perm f) path = Inl e) \<or> (\<exists>e. GetOwner (Perm f) path = Inl e) \<or>
    (\<exists>e. GetGroup (Perm f) path = Inl e) \<longrightarrow> (\<exists>e. Stat f os path = Inl e)) \<and>
   (\<forall>fi. Stat f os path = Inr fi \<longrightarrow>
      (\<exists>rPath r m ow gr.
         filepath_Abs os (realPath (RootPath f) path) = Inr rPath \<and> os_Lstat os rPath = Inr r \<and>
         GetMode (Perm f) path = Inr m \<and> GetOwner (Perm f) path = Inr ow \<and>
         GetGroup (Perm f) path = Inr gr \<and>
         fi = FileInfoEx_of r (if fi_IsDir r then m OR os_ModeDir else m) ow gr)) \<and>
   (\<forall>rPath r m ow gr.
      filepath_Abs os (realPath (RootPath f) path) = Inr rPath \<and> os_Lstat os rPath = Inr r \<and>
      GetMode (Perm f) path = Inr m \<and> GetOwner (Perm f) path = Inr ow \<and>
      GetGroup (Perm f) path = Inr gr \<longrightarrow>
      Stat f os path = Inr (FileInfoEx_of r (if fi_IsDir r then m OR os_ModeDir else m) ow gr))"
proof -
  have 1: "(\<exists>e. GetMode (Perm f) path = Inl e) \<or> (\<exists>e. GetOwner (Perm f) path = Inl e) \<or>
    (\<exists>e. GetGroup (Perm f) path = Inl e) \<longrightarrow> (\<exists>e. Stat f os path = Inl e)"
    by (auto simp: Stat_def Let_def split: sum.splits)
  have 2: "\<forall>fi. Stat f os path = Inr fi \<longrightarrow>
      (\<exists>rPath r m ow gr.
         filepath_Abs os (realPath (RootPath f) path) = Inr rPath \<and> os_Lstat os rPath = Inr r \<and>
         GetMode (Perm f) path = Inr m \<and> GetOwner (Perm f) path = Inr ow \<and>
         GetGroup (Perm f) path = Inr gr \<and>
         fi = FileInfoEx_of r (if fi_IsDir r then m OR os_ModeDir else m) ow gr)"
    by (auto simp: Stat_def Let_def split: sum.splits)
  have 3: "\<forall>rPath r m ow gr.
      filepath_Abs os (realPath (RootPath f) path) = Inr rPath \<and> os_Lstat os rPath = Inr r \<and>
      GetMode (Perm f) path = Inr m \<and> GetOwner (Perm f) path = Inr ow \<and>
      GetGroup (Perm f) path = Inr gr \<longrightarrow>
      Stat f os path = Inr (FileInfoEx_of r (if fi_IsDir r then m OR os_ModeDir else m) ow gr)"
    by (auto simp: Stat_def Let_def split: sum.splits)
  show ?thesis using 1 2 3 by blast
qed

subsection \<open>GetFile\<close>

text \<open>
  Claim C3: for an existing regular file with content \<open>c\<close> and an offset \<open>n\<close> with
  \<open>0 \<le> n \<le> length c\<close>, \<^verbatim>\<open>GetFile\<close> succeeds; it returns the size \<open>length c\<close> and a reader
  whose remaining bytes are the bytes of \<open>c\<close> from offset \<open>n\<close> on.
\<close>

theorem GetFile_suffix:
  assumes "os_node os (realPath (RootPath f) path) = Inr (File c)"
    and "0 \<le> n" and "n \<le> int (length c)"
  shows "\<exists>r. GetFile f os path n = Inr (int (length c), r) \<and> io_ReadAll os r = Inr (drop (nat n) c)"
proof -
  let ?rp = "realPath (RootPath f) path"
  obtain els where els: "resolve os ?rp = Inr els" "lookup (tree os) els = Inr (File c)"
    using assms(1) by (auto simp: os_node_def split: sum.splits)
  let ?h = "\<lparr>f_name = ?rp, f_elems = els, f_pos = 0, f_append = False\<rparr>"
  have o: "os_Open os ?rp = Inr ?h" using els by (simp add: os_Open_def)
  have st: "File_Stat os ?h = Inr (node_info (basename ?rp) (File c))"
    using els by (simp add: File_Stat_def)
  have sk: "fst (File_Seek os ?h n SeekStart) = ?h\<lparr>f_pos := n\<rparr>"
    using els assms(2) by (simp add: File_Seek_def Let_def)
  have g: "GetFile f os path n = Inr (int (length c), ?h\<lparr>f_pos := n\<rparr>)"
    using o st sk by (simp add: GetFile_def Let_def node_info_def)
  have "io_ReadAll os (?h\<lparr>f_pos := n\<rparr>) = Inr (drop (nat n) c)"
    using els by (simp add: io_ReadAll_def)
  then show ?thesis using g by blast
qed

subsection \<open>The tree of the host\<close>

lemma lookup_append:
  "lookup t (p @ q) = (case lookup t p of Inl e \<Rightarrow> Inl e | Inr n \<Rightarrow> lookup n q)"
  by (induction p arbitrary: t) (auto split: node.splits option.splits)

lemma lookup_put_node:
  "els \<noteq> [] \<Longrightarrow> lookup t (butlast els) = Inr (Dir ents) \<Longrightarrow> lookup (put_node t els v) els = Inr v"
proof (induction els arbitrary: t)
  case Nil then show ?case by simp
next
  case (Cons e es)
  show ?case
  proof (cases "es = []")
    case True
    then have "t = Dir ents" using Cons.prems by simp
    then show ?thesis using True by (simp add: update_conv' split: option.splits)
  next
    case False
    then obtain ents0 n' where t: "t = Dir ents0" "map_of ents0 e = Some n'"
        "lookup n' (butlast es) = Inr (Dir ents)"
      using Cons.prems by (auto split: node.splits option.splits)
    have "lookup (put_node n' es v) es = Inr v" using Cons.IH[OF False t(3)] .
    then show ?thesis using t False by (simp add: update_conv')
  qed
qed

lemma lookup_parent:
  "els \<noteq> [] \<Longrightarrow> lookup t els = Inr n \<Longrightarrow>
     \<exists>ents. lookup t (butlast els) = Inr (Dir ents) \<and> map_of ents (last els) = Some n"
proof -
  assume a: "els \<noteq> []" "lookup t els = Inr n"
  then have e: "els = butlast els @ [last els]" by simp
  have "lookup t (butlast els @ [last els]) = Inr n" using a e by simp
  then show ?thesis
    by (auto simp: lookup_append split: sum.splits node.splits option.splits)
qed

lemma lookup_child:
  "els \<noteq> [] \<Longrightarrow> lookup t (butlast els) = Inr (Dir ents) \<Longrightarrow>
     lookup t els = (case map_of ents (last els) of None \<Rightarrow> Inl ENOENT | Some n \<Rightarrow> Inr n)"
proof -
  assume a: "els \<noteq> []" "lookup t (butlast els) = Inr (Dir ents)"
  have "lookup t (butlast els @ [last els]) =
          (case map_of ents (last els) of None \<Rightarrow> Inl ENOENT | Some n \<Rightarrow> Inr n)"
    unfolding lookup_append a(2) by (simp split: option.splits)
  then show ?thesis using a(1) by simp
qed

lemma lookup_del_node_parent:
  "els \<noteq> [] \<Longrightarrow> lookup t (butlast els) = Inr (Dir ents) \<Longrightarrow>
     lookup (del_node t els) (butlast els) = Inr (Dir (AList.delete (last els) ents))"
proof (induction els arbitrary: t)
  case Nil then show ?case by simp
next
  case (Cons e es)
  show ?case
  proof (cases "es = []")
    case True
    then show ?thesis using Cons.prems by simp
  next
    case False
    then obtain ents0 n' where t: "t = Dir ents0" "map_of ents0 e = Some n'"
        "lookup n' (butlast es) = Inr (Dir ents)"
      using Cons.prems by (auto split: node.splits option.splits)
    show ?thesis using Cons.IH[OF False t(3)] t False by (simp add: update_conv')
  qed
qed


lemma lookup_put_existing:
  "lookup t els = Inr n \<Longrightarrow> lookup (put_node t els v) els = Inr v"
proof (cases "els = []")
  case True then show ?thesis by simp
next
  case False
  assume "lookup t els = Inr n"
  then obtain ents where "lookup t (butlast els) = Inr (Dir ents)"
    using lookup_parent[OF False] by blast
  then show ?thesis using lookup_put_node[OF False] by blast
qed

lemma resolve_tree_update [simp]: "resolve (os\<lparr>tree := x\<rparr>) p = resolve os p"
  by (simp add: resolve_def os_Getwd_def)

lemma os_node_tree_update:
  "resolve os p = Inr els \<Longrightarrow> os_node (os\<lparr>tree := x\<rparr>) p = lookup x els"
  by (simp add: os_node_def)

lemma os_Create_new:
  assumes "resolve os p = Inr els" "els \<noteq> []" "lookup (tree os) (butlast els) = Inr (Dir ents)"
    and "map_of ents (last els) = None"
  shows "os_Create os p = (os\<lparr>tree := put_node (tree os) els (File [])\<rparr>,
            Inr \<lparr>f_name = p, f_elems = els, f_pos = 0, f_append = False\<rparr>)"
  using assms by (simp add: os_Create_def)

lemma io_Copy_all:
  assumes "lookup (tree os) (f_elems h) = Inr (File c)"
  shows "\<exists>h'. io_Copy os h \<lparr>r_data = d, r_err = None\<rparr> =
           (os\<lparr>tree := put_node (tree os) (f_elems h)
                   (File (if f_append h then c @ d else write_at c (nat (f_pos h)) d))\<rparr>,
            h', int (length d), None)"
  using assms by (simp add: io_Copy_def Let_def)

lemma write_at_empty [simp]: "write_at [] 0 d = d"
  by (simp add: write_at_def)

lemma PutFile_create:
  assumes r: "resolve os rp = Inr els" and ne: "els \<noteq> []"
    and par: "lookup (tree os) (butlast els) = Inr (Dir ents)"
    and absent: "map_of ents (last els) = None"
  shows "\<exists>os'. (case os_Create os rp of
           (os2, Inl err) \<Rightarrow> (os2, Inl err)
         | (os2, Inr r) \<Rightarrow>
        (case io_Copy os2 r \<lparr>r_data = d, r_err = None\<rparr> of
           (os3, _, bytes, Some err) \<Rightarrow> (os3, Inl err)
         | (os3, _, bytes, None) \<Rightarrow> (os3, Inr bytes))) = (os', Inr (int (length d)))
        \<and> os_node os' rp = Inr (File d)"
proof -
  let ?t2 = "put_node (tree os) els (File [])"
  let ?os2 = "os\<lparr>tree := ?t2\<rparr>"
  let ?h = "\<lparr>f_name = rp, f_elems = els, f_pos = 0, f_append = False\<rparr>"
  have c: "os_Create os rp = (?os2, Inr ?h)" using os_Create_new[OF r ne par absent] .
  have l2: "lookup (tree ?os2) (f_elems ?h) = Inr (File [])"
    using lookup_put_node[OF ne par] by simp
  obtain h' where cp: "io_Copy ?os2 ?h \<lparr>r_data = d, r_err = None\<rparr> =
      (?os2\<lparr>tree := put_node ?t2 els (File d)\<rparr>, h', int (length d), None)"
    using io_Copy_all[OF l2, of d] by auto
  have l3: "lookup (put_node ?t2 els (File d)) els = Inr (File d)"
    using lookup_put_existing[of ?t2 els "File []"] l2 by simp
  have "os_node (?os2\<lparr>tree := put_node ?t2 els (File d)\<rparr>) rp = Inr (File d)"
    using r l3 by (simp add: os_node_def)
  then show ?thesis unfolding c using cp by simp
qed


lemma PutFile_truncates:
  assumes r: "resolve os (realPath (RootPath f) p) = Inr els" and ne: "els \<noteq> []"
    and ex: "lookup (tree os) els = Inr (File c)"
  shows "\<exists>os'. PutFile f os p \<lparr>r_data = d, r_err = None\<rparr> False = (os', Inr (int (length d))) \<and>
           os_node os' (realPath (RootPath f) p) = Inr (File d)"
proof -
  let ?rp = "realPath (RootPath f) p"
  obtain ents where par: "lookup (tree os) (butlast els) = Inr (Dir ents)"
    using lookup_parent[OF ne ex] by blast
  let ?os1 = "os\<lparr>tree := del_node (tree os) els\<rparr>"
  have lst: "os_Lstat os ?rp = Inr (node_info (basename ?rp) (File c))"
    using r ex by (simp add: os_Lstat_def os_node_def)
  have rm: "os_Remove os ?rp = (?os1, None)"
    using r ne ex by (simp add: os_Remove_def)
  have r1: "resolve ?os1 ?rp = Inr els" using r by simp
  have par1: "lookup (tree ?os1) (butlast els) = Inr (Dir (AList.delete (last els) ents))"
    using lookup_del_node_parent[OF ne par] by simp
  have ab1: "map_of (AList.delete (last els) ents) (last els) = None"
    by (simp add: delete_conv')
  obtain os' where E: "(case os_Create ?os1 ?rp of
           (os2, Inl err) \<Rightarrow> (os2, Inl err)
         | (os2, Inr r) \<Rightarrow>
        (case io_Copy os2 r \<lparr>r_data = d, r_err = None\<rparr> of
           (os3, _, bytes, Some err) \<Rightarrow> (os3, Inl err)
         | (os3, _, bytes, None) \<Rightarrow> (os3, Inr bytes))) = (os', Inr (int (length d)))"
      and N: "os_node os' ?rp = Inr (File d)"
    using PutFile_create[OF r1 ne par1 ab1, of d] by blast
  have "PutFile f os p \<lparr>r_data = d, r_err = None\<rparr> False = (os', Inr (int (length d)))"
    unfolding PutFile_def Let_def lst using rm E by (simp add: node_info_def)
  then show ?thesis using N by blast
qed

lemma PutFile_appends:
  assumes r: "resolve os (realPath (RootPath f) p) = Inr els"
    and ex: "lookup (tree os) els = Inr (File c)"
  shows "\<exists>os'. PutFile f os p \<lparr>r_data = d, r_err = None\<rparr> True = (os', Inr (int (length d))) \<and>
           os_node os' (realPath (RootPath f) p) = Inr (File (c @ d))"
proof -
  let ?rp = "realPath (RootPath f) p"
  let ?h = "\<lparr>f_name = ?rp, f_elems = els, f_pos = 0, f_append = True\<rparr>"
  have lst: "os_Lstat os ?rp = Inr (node_info (basename ?rp) (File c))"
    using r ex by (simp add: os_Lstat_def os_node_def)
  have op: "os_OpenFile_append os ?rp = Inr ?h"
    using r ex by (simp add: os_OpenFile_append_def)
  have sk: "File_Seek os ?h 0 SeekEnd = (?h\<lparr>f_pos := int (length c)\<rparr>, Inr (int (length c)))"
    using ex by (simp add: File_Seek_def Let_def)
  let ?h1 = "?h\<lparr>f_pos := int (length c)\<rparr>"
  have "lookup (tree os) (f_elems ?h1) = Inr (File c)" using ex by simp
  then obtain h' where cp: "io_Copy os ?h1 \<lparr>r_data = d, r_err = None\<rparr> =
      (os\<lparr>tree := put_node (tree os) els (File (c @ d))\<rparr>, h', int (length d), None)"
    using io_Copy_all[of os ?h1 c d] by auto
  let ?os' = "os\<lparr>tree := put_node (tree os) els (File (c @ d))\<rparr>"
  have "PutFile f os p \<lparr>r_data = d, r_err = None\<rparr> True = (?os', Inr (int (length d)))"
    unfolding PutFile_def Let_def lst using op sk cp by (simp add: node_info_def)
  moreover have "os_node ?os' ?rp = Inr (File (c @ d))"
    using r lookup_put_existing[OF ex] by (simp add: os_node_def)
  ultimately show ?thesis by blast
qed

lemma PutFile_creates:
  assumes r: "resolve os (realPath (RootPath f) p) = Inr els" and ne: "els \<noteq> []"
    and par: "lookup (tree os) (butlast els) = Inr (Dir ents)"
    and ab: "lookup (tree os) els = Inl ENOENT"
  shows "\<exists>os'. PutFile f os p \<lparr>r_data = d, r_err = None\<rparr> a = (os', Inr (int (length d))) \<and>
           os_node os' (realPath (RootPath f) p) = Inr (File d)"
proof -
  let ?rp = "realPath (RootPath f) p"
  have lst: "os_Lstat os ?rp = Inl (PathError ''lstat'' ?rp ENOENT)"
    using r ab by (simp add: os_Lstat_def os_node_def)
  have absent: "map_of ents (last els) = None"
    using lookup_child[OF ne par] ab by (simp split: option.splits)
  obtain os' where E: "(case os_Create os ?rp of
           (os2, Inl err) \<Rightarrow> (os2, Inl err)
         | (os2, Inr r) \<Rightarrow>
        (case io_Copy os2 r \<lparr>r_data = d, r_err = None\<rparr> of
           (os3, _, bytes, Some err) \<Rightarrow> (os3, Inl err)
         | (os3, _, bytes, None) \<Rightarrow> (os3, Inr bytes))) = (os', Inr (int (length d)))"
      and N: "os_node os' ?rp = Inr (File d)"
    using PutFile_create[OF r ne par absent, of d] by blast
  have "PutFile f os p \<lparr>r_data = d, r_err = None\<rparr> a = (os', Inr (int (length d)))"
    unfolding PutFile_def Let_def lst using E by (simp add: os_IsNotExist_def)
  then show ?thesis using N by blast
qed

text \<open>
  Claim C2, as the code has it: for a destination whose parent directory exists, and a
  reader that delivers the bytes \<open>d\<close> and then ends, \<^verbatim>\<open>PutFile\<close> returns the count
  \<open>length d\<close>; over an existing regular file with content \<open>c\<close> it leaves \<open>d\<close> when not
  appending and \<open>c @ d\<close> when appending; where nothing existed it creates the file with
  content \<open>d\<close>, appending or not.
\<close>

theorem PutFile_content:
  assumes "parent_is_dir os (realPath (RootPath f) p)"
  shows "(os_node os (realPath (RootPath f) p) = Inr (File c) \<longrightarrow>
            snd (PutFile f os p \<lparr>r_data = d, r_err = None\<rparr> False) = Inr (int (length d)) \<and>
            os_node (fst (PutFile f os p \<lparr>r_data = d, r_err = None\<rparr> False)) (realPath (RootPath f) p)
              = Inr (File d) \<and>
            snd (PutFile f os p \<lparr>r_data = d, r_err = None\<rparr> True) = Inr (int (length d)) \<and>
            os_node (fst (PutFile f os p \<lparr>r_data = d, r_err = None\<rparr> True)) (realPath (RootPath f) p)
              = Inr (File (c @ d))) \<and>
         (os_node os (realPath (RootPath f) p) = Inl ENOENT \<longrightarrow>
            snd (PutFile f os p \<lparr>r_data = d, r_err = None\<rparr> a) = Inr (int (length d)) \<and>
            os_node (fst (PutFile f os p \<lparr>r_data = d, r_err = None\<rparr> a)) (realPath (RootPath f) p)
              = Inr (File d))"
proof -
  let ?rp = "realPath (RootPath f) p"
  obtain els ents where r: "resolve os ?rp = Inr els" and ne: "els \<noteq> []"
      and par: "lookup (tree os) (butlast els) = Inr (Dir ents)"
    using assms by (auto simp: parent_is_dir_def split: sum.splits node.splits)
  have n: "os_node os ?rp = lookup (tree os) els" using r by (simp add: os_node_def)
  have A: "os_node os ?rp = Inr (File c) \<longrightarrow>
            snd (PutFile f os p \<lparr>r_data = d, r_err = None\<rparr> False) = Inr (int (length d)) \<and>
            os_node (fst (PutFile f os p \<lparr>r_data = d, r_err = None\<rparr> False)) ?rp = Inr (File d)"
    using PutFile_truncates[OF r ne, of c d] n by auto
  have B: "os_node os ?rp = Inr (File c) \<longrightarrow>
            snd (PutFile f os p \<lparr>r_data = d, r_err = None\<rparr> True) = Inr (int (length d)) \<and>
            os_node (fst (PutFile f os p \<lparr>r_data = d, r_err = None\<rparr> True)) ?rp = Inr (File (c @ d))"
    using PutFile_appends[OF r, of c d] n by auto
  have C: "os_node os ?rp = Inl ENOENT \<longrightarrow>
            snd (PutFile f os p \<lparr>r_data = d, r_err = None\<rparr> a) = Inr (int (length d)) \<and>
            os_node (fst (PutFile f os p \<lparr>r_data = d, r_err = None\<rparr> a)) ?rp = Inr (File d)"
    using PutFile_creates[OF r ne par, of d a] n by auto
  show ?thesis using A B C by blast
qed


subsection \<open>MakeDir\<close>

lemma MkdirAll_elems_dir:
  "lookup t els = Inr (Dir x) \<Longrightarrow> MkdirAll_elems t els = Inr t"
  by (subst MkdirAll_elems.simps) simp

lemma MkdirAll_elems_result:
  "MkdirAll_elems t els = Inr t' \<Longrightarrow>
     (\<exists>x. lookup t els = Inr (Dir x) \<and> t' = t) \<or>
     ((\<exists>e. lookup t els = Inl e) \<and> lookup t' els = Inr (Dir []))"
proof (induction t els arbitrary: t' rule: MkdirAll_elems.induct)
  case (1 t els)
  show ?case
  proof (cases "lookup t els")
    case (Inr n)
    then show ?thesis using 1(2)
      by (subst (asm) MkdirAll_elems.simps) (auto split: node.splits)
  next
    case (Inl e)
    then have ne: "els \<noteq> []" by auto
    obtain t2 where t2: "MkdirAll_elems t (butlast els) = Inr t2"
      and m: "os_Mkdir_elems t2 els = Inr t' \<or>
              ((\<exists>e'. os_Mkdir_elems t2 els = Inl e') \<and> (\<exists>x. lookup t2 els = Inr (Dir x)) \<and> t' = t2)"
      using 1(2) Inl ne
      by (subst (asm) MkdirAll_elems.simps) (auto split: sum.splits prod.splits node.splits)
    have once: "\<not> (\<exists>x. lookup t2 els = Inr (Dir x))"
      using 1(1)[OF Inl ne t2]
    proof
      assume "\<exists>x. lookup t (butlast els) = Inr (Dir x) \<and> t2 = t"
      then show ?thesis using Inl by auto
    next
      assume "(\<exists>e. lookup t (butlast els) = Inl e) \<and> lookup t2 (butlast els) = Inr (Dir [])"
      then have "lookup t2 (butlast els) = Inr (Dir [])" by blast
      then have "lookup t2 els = Inl ENOENT" using lookup_child[OF ne] by simp
      then show ?thesis by simp
    qed
    then have "os_Mkdir_elems t2 els = Inr t'" using m by blast
    then obtain ents where "lookup t2 (butlast els) = Inr (Dir ents)" "t' = put_node t2 els (Dir [])"
      by (auto simp: os_Mkdir_elems_def split: if_splits sum.splits node.splits option.splits)
    then have "lookup t' els = Inr (Dir [])" using lookup_put_node ne by blast
    then show ?thesis using Inl by blast
  qed
qed

lemma MkdirAll_elems_idem:
  "MkdirAll_elems t els = Inr t' \<Longrightarrow> MkdirAll_elems t' els = Inr t'"
  using MkdirAll_elems_result[of t els t'] MkdirAll_elems_dir by metis

lemma MkdirAll_elems_success:
  "\<forall>k \<le> length els. \<forall>c. lookup t (take k els) \<noteq> Inr (File c) \<Longrightarrow> \<exists>t'. MkdirAll_elems t els = Inr t'"
proof (induction t els rule: MkdirAll_elems.induct)
  case (1 t els)
  show ?case
  proof (cases "lookup t els")
    case (Inr n)
    have "\<forall>c. lookup t els \<noteq> Inr (File c)" using 1(2)[rule_format, of "length els"] by simp
    then obtain x where "n = Dir x" using Inr by (cases n) auto
    then show ?thesis using Inr MkdirAll_elems_dir by blast
  next
    case (Inl e)
    then have ne: "els \<noteq> []" by auto
    have "\<forall>k \<le> length (butlast els). \<forall>c. lookup t (take k (butlast els)) \<noteq> Inr (File c)"
    proof (intro allI impI)
      fix k c assume k: "k \<le> length (butlast els)"
      then have "take k (butlast els) = take k els" by (simp add: butlast_conv_take)
      moreover have "k \<le> length els" using k by simp
      ultimately show "lookup t (take k (butlast els)) \<noteq> Inr (File c)" using 1(2) by simp
    qed
    then obtain t2 where t2: "MkdirAll_elems t (butlast els) = Inr t2"
      using 1(1)[OF Inl ne] by blast
    have "\<exists>ents. lookup t2 (butlast els) = Inr (Dir ents) \<and> map_of ents (last els) = None"
      using MkdirAll_elems_result[OF t2]
    proof
      assume "\<exists>x. lookup t (butlast els) = Inr (Dir x) \<and> t2 = t"
      then obtain x where x: "lookup t (butlast els) = Inr (Dir x)" "t2 = t" by blast
      have "map_of x (last els) = None" using lookup_child[OF ne x(1)] Inl by (simp split: option.splits)
      then show ?thesis using x by blast
    next
      assume "(\<exists>e. lookup t (butlast els) = Inl e) \<and> lookup t2 (butlast els) = Inr (Dir [])"
      then show ?thesis by auto
    qed
    then obtain ents where "lookup t2 (butlast els) = Inr (Dir ents)" "map_of ents (last els) = None"
      by blast
    then have "os_Mkdir_elems t2 els = Inr (put_node t2 els (Dir []))"
      using ne by (simp add: os_Mkdir_elems_def)
    then show ?thesis using Inl ne t2 by (subst MkdirAll_elems.simps) simp
  qed
qed

lemma lookup_prefix_dir:
  assumes "lookup t els = Inr (Dir x)" "k \<le> length els"
  shows "\<exists>y. lookup t (take k els) = Inr (Dir y)"
proof -
  have "lookup t (take k els @ drop k els) = Inr (Dir x)" using assms(1) by simp
  then obtain n where n: "lookup t (take k els) = Inr n" "lookup n (drop k els) = Inr (Dir x)"
    unfolding lookup_append by (auto split: sum.splits)
  show ?thesis
  proof (cases "drop k els")
    case Nil
    then show ?thesis using n by simp
  next
    case (Cons a as)
    then show ?thesis using n by (cases n) auto
  qed
qed

lemma MkdirAll_elems_file:
  "k \<le> length els \<Longrightarrow> lookup t (take k els) = Inr (File c) \<Longrightarrow>
     \<exists>up. MkdirAll_elems t els = Inl (ENOTDIR, up)"
proof (induction t els rule: MkdirAll_elems.induct)
  case (1 t els)
  show ?case
  proof (cases "lookup t els")
    case (Inr n)
    show ?thesis
    proof (cases n)
      case (File c')
      then show ?thesis using Inr by (subst MkdirAll_elems.simps) simp
    next
      case (Dir x)
      then have "\<exists>y. lookup t (take k els) = Inr (Dir y)"
        using lookup_prefix_dir[of t els x k] Inr 1(2) by simp
      then show ?thesis using 1(3) by simp
    qed
  next
    case (Inl e)
    then have ne: "els \<noteq> []" by auto
    have "k \<noteq> length els" using Inl 1(3) by auto
    then have k: "k \<le> length (butlast els)" using 1(2) by simp
    then have "take k (butlast els) = take k els" by (simp add: butlast_conv_take)
    then have "lookup t (take k (butlast els)) = Inr (File c)" using 1(3) by simp
    then obtain up where "MkdirAll_elems t (butlast els) = Inl (ENOTDIR, up)"
      using 1(1)[OF Inl ne k] by blast
    then show ?thesis using Inl ne by (subst MkdirAll_elems.simps) simp
  qed
qed

lemma list_all_upto: "list_all P [0..<Suc n] = (\<forall>k \<le> n. P k)"
  unfolding list_all_iff by (auto simp del: upt_Suc simp: less_Suc_eq_le)

lemma list_ex_upto: "list_ex P [0..<Suc n] = (\<exists>k \<le> n. P k)"
  unfolding list_ex_iff by (auto simp del: upt_Suc simp: less_Suc_eq_le)

text \<open>
  Claim C10, as the code has it. Running \<^verbatim>\<open>MakeDir\<close> a second time gives the result and the
  state of the first run, for every path. On an existing directory it succeeds and changes
  nothing. When the physical path names a place on the host and no regular file lies on
  it, \<^verbatim>\<open>MakeDir\<close> succeeds, and afterwards the path and all its ancestors are directories.
  When a regular file lies on the path, \<^verbatim>\<open>MakeDir\<close> changes nothing and returns the error
  \<open>ENOTDIR\<close> of \<^verbatim>\<open>mkdir\<close> for the physical path or one of its parents. When the physical path
  names no place, \<^verbatim>\<open>MakeDir\<close> changes nothing and returns the error \<open>ENOENT\<close> of \<^verbatim>\<open>mkdir\<close>.
\<close>

theorem MakeDir_idempotent_parents:
  "MakeDir f (fst (MakeDir f os p)) p = MakeDir f os p \<and>
   (\<forall>ents. os_node os (realPath (RootPath f) p) = Inr (Dir ents) \<longrightarrow> MakeDir f os p = (os, None)) \<and>
   (names_place os (realPath (RootPath f) p) \<and> \<not> file_on_path os (realPath (RootPath f) p) \<longrightarrow>
      snd (MakeDir f os p) = None \<and> dirs_along (fst (MakeDir f os p)) (realPath (RootPath f) p)) \<and>
   (file_on_path os (realPath (RootPath f) p) \<longrightarrow>
      fst (MakeDir f os p) = os \<and>
      (\<exists>up. snd (MakeDir f os p) =
              Some (PathError ''mkdir'' (MkdirAll_up up (realPath (RootPath f) p)) ENOTDIR))) \<and>
   (\<not> names_place os (realPath (RootPath f) p) \<longrightarrow>
      MakeDir f os p = (os, Some (PathError ''mkdir'' (MkdirAll_top (realPath (RootPath f) p)) ENOENT)))"
proof -
  let ?rp = "realPath (RootPath f) p"
  have A: "MakeDir f (fst (MakeDir f os p)) p = MakeDir f os p"
  proof (cases "resolve os ?rp")
    case (Inl e)
    then show ?thesis by (simp add: MakeDir_def os_MkdirAll_def)
  next
    case (Inr els)
    show ?thesis
    proof (cases "MkdirAll_elems (tree os) els")
      case (Inl e)
      then show ?thesis using Inr by (cases e) (simp add: MakeDir_def os_MkdirAll_def)
    next
      case r: (Inr t')
      have "MkdirAll_elems t' els = Inr t'" using MkdirAll_elems_idem[OF r] .
      then show ?thesis using Inr r by (simp add: MakeDir_def os_MkdirAll_def)
    qed
  qed
  have B: "\<forall>ents. os_node os ?rp = Inr (Dir ents) \<longrightarrow> MakeDir f os p = (os, None)"
    by (auto simp: os_node_def MakeDir_def os_MkdirAll_def MkdirAll_elems_dir split: sum.splits)
  have C: "names_place os ?rp \<and> \<not> file_on_path os ?rp \<longrightarrow>
             snd (MakeDir f os p) = None \<and> dirs_along (fst (MakeDir f os p)) ?rp"
  proof
    assume u: "names_place os ?rp \<and> \<not> file_on_path os ?rp"
    then obtain els where els: "resolve os ?rp = Inr els"
      by (auto simp: names_place_def split: sum.splits)
    have "\<forall>k \<le> length els. \<forall>c. lookup (tree os) (take k els) \<noteq> Inr (File c)"
      using u els unfolding file_on_path_def list_ex_upto by (auto split: sum.splits node.splits)
    then obtain t' where t': "MkdirAll_elems (tree os) els = Inr t'"
      using MkdirAll_elems_success by blast
    then obtain x where x: "lookup t' els = Inr (Dir x)"
      using MkdirAll_elems_result[OF t'] by auto
    have m: "MakeDir f os p = (os\<lparr>tree := t'\<rparr>, None)"
      using els t' by (simp add: MakeDir_def os_MkdirAll_def)
    have "\<forall>k \<le> length els. \<exists>y. lookup t' (take k els) = Inr (Dir y)"
      using lookup_prefix_dir[OF x] by blast
    then have "dirs_along (os\<lparr>tree := t'\<rparr>) ?rp"
      using els unfolding dirs_along_def list_all_upto by auto
    then show "snd (MakeDir f os p) = None \<and> dirs_along (fst (MakeDir f os p)) ?rp"
      using m by simp
  qed
  have D: "file_on_path os ?rp \<longrightarrow>
             fst (MakeDir f os p) = os \<and>
             (\<exists>up. snd (MakeDir f os p) = Some (PathError ''mkdir'' (MkdirAll_up up ?rp) ENOTDIR))"
  proof
    assume b: "file_on_path os ?rp"
    then obtain els where els: "resolve os ?rp = Inr els"
      by (auto simp: file_on_path_def split: sum.splits)
    obtain k where k: "k \<le> length els"
        "(case lookup (tree os) (take k els) of Inr (File _) \<Rightarrow> True | _ \<Rightarrow> False)"
      using b els unfolding file_on_path_def list_ex_upto by auto
    obtain c where "lookup (tree os) (take k els) = Inr (File c)"
      using k(2) by (cases "lookup (tree os) (take k els)") (auto split: node.splits)
    with k(1) have "\<exists>k c. k \<le> length els \<and> lookup (tree os) (take k els) = Inr (File c)" by blast
    then obtain k c where "k \<le> length els" "lookup (tree os) (take k els) = Inr (File c)" by blast
    then obtain up where "MkdirAll_elems (tree os) els = Inl (ENOTDIR, up)"
      using MkdirAll_elems_file by blast
    then have "MakeDir f os p = (os, Some (PathError ''mkdir'' (MkdirAll_up up ?rp) ENOTDIR))"
      using els by (simp add: MakeDir_def os_MkdirAll_def)
    then show "fst (MakeDir f os p) = os \<and>
        (\<exists>up. snd (MakeDir f os p) = Some (PathError ''mkdir'' (MkdirAll_up up ?rp) ENOTDIR))"
      by (metis fst_conv snd_conv)
  qed
  have E: "\<not> names_place os ?rp \<longrightarrow>
             MakeDir f os p = (os, Some (PathError ''mkdir'' (MkdirAll_top ?rp) ENOENT))"
  proof
    assume "\<not> names_place os ?rp"
    then have "resolve os ?rp = Inl ENOENT"
      by (auto simp: names_place_def resolve_def split: sum.splits if_splits)
    then show "MakeDir f os p = (os, Some (PathError ''mkdir'' (MkdirAll_top ?rp) ENOENT))"
      by (simp add: MakeDir_def os_MkdirAll_def)
  qed
  show ?thesis using A B C D E by blast
qed


subsection \<open>ListDir\<close>

lemma Join_ne: "es \<noteq> [] \<Longrightarrow> hd es \<noteq> [] \<Longrightarrow> strings_Join es sep \<noteq> []"
proof -
  assume a: "es \<noteq> []" "hd es \<noteq> []"
  then obtain e es' where "es = e # es'" by (cases es) auto
  then show ?thesis using a by (cases es') auto
qed

lemma canon_hd: "canon r es \<Longrightarrow> es \<noteq> [] \<Longrightarrow> hd es \<noteq> [] \<and> CHR ''/'' \<notin> set (hd es)"
  by (cases es) (auto simp: canon_def plain_def)

lemma canon_no_slash: "canon r es \<Longrightarrow> \<forall>e \<in> set es. CHR ''/'' \<notin> set e"
  by (auto simp: canon_def plain_def)

lemma Clean_render: "p \<noteq> [] \<Longrightarrow> filepath_Clean p = render (is_rooted p) (clean_elems p)"
  by (simp add: filepath_Clean_def render_def)

lemma Clean_idem: "filepath_Clean (filepath_Clean p) = filepath_Clean p"
proof -
  have ne: "filepath_Clean p \<noteq> []"
  proof (cases "p = [] \<or> is_rooted p \<or> clean_elems p = []")
    case True then show ?thesis by (auto simp: filepath_Clean_def)
  next
    case False
    then have "strings_Join (clean_elems p) ''/'' \<noteq> []"
      using Join_ne canon_hd[OF canon_clean_elems[of p]] by blast
    then show ?thesis using False by (simp add: filepath_Clean_def)
  qed
  show ?thesis
  proof (cases "p = []")
    case True
    then show ?thesis
      by (simp add: filepath_Clean_def is_rooted_def clean_elems_def clean_elem_def)
  next
    case False
    show ?thesis
      unfolding Clean_render[OF ne] clean_elems_Clean is_rooted_Clean
      using False by (simp add: Clean_render)
  qed
qed

lemma Split_render:
  assumes "canon r es" "r \<or> es \<noteq> []"
  shows "strings_Split (render r es) CHR ''/'' =
           (if r then (if es = [] then [[], []] else [] # es) else es)"
proof -
  have sj: "es \<noteq> [] \<Longrightarrow> strings_Split (strings_Join es ''/'') CHR ''/'' = es"
    using Split_Join[of es "CHR ''/''"] canon_no_slash[OF assms(1)] by simp
  show ?thesis using assms(2) sj by (auto simp: render_def)
qed

lemma strip_common_append: "strip_common xs (xs @ ys) = ([], ys)"
  by (induction xs) auto


lemma rel_elems_render:
  assumes "canon r es" "r \<or> es \<noteq> []"
  shows "rel_elems (render r es) = (if r then [] # es else es)"
proof (cases r)
  case True
  show ?thesis
  proof (cases "es = []")
    case e: True
    then show ?thesis using True by (simp add: rel_elems_def render_def)
  next
    case ne: False
    have "strings_Join es ''/'' \<noteq> []" using Join_ne canon_hd[OF assms(1) ne] ne by blast
    then have "render r es \<noteq> [] \<and> render r es \<noteq> ''/''" using True by (simp add: render_def)
    then show ?thesis using Split_render[OF assms] True ne by (simp add: rel_elems_def)
  qed
next
  case False
  then have ne: "es \<noteq> []" using assms(2) by simp
  have j: "strings_Join es ''/'' \<noteq> []" using Join_ne canon_hd[OF assms(1) ne] ne by blast
  have "\<not> is_rooted (strings_Join es ''/'')"
    using Join_not_rooted[OF ne] canon_hd[OF assms(1) ne] by blast
  then have "strings_Join es ''/'' \<noteq> ''/''" by (auto simp: is_rooted_def)
  then have "render r es \<noteq> [] \<and> render r es \<noteq> ''/''" using False ne j by (simp add: render_def)
  then show ?thesis using Split_render[OF assms] False by (simp add: rel_elems_def)
qed

lemma last_Join:
  "es \<noteq> [] \<Longrightarrow> last es \<noteq> [] \<Longrightarrow>
     strings_Join es sep \<noteq> [] \<and> last (strings_Join es sep) = last (last es)"
  by (induction es sep rule: strings_Join.induct) auto

lemma dropWhile_rev_last:
  "xs \<noteq> [] \<Longrightarrow> last xs \<noteq> c \<Longrightarrow> dropWhile (\<lambda>x. x = c) (rev xs) = rev xs"
  by (cases xs rule: rev_cases) auto

lemma basename_render:
  assumes "canon r es" "es \<noteq> []"
  shows "basename (render r es) = last es"
proof -
  let ?s = "render r es"
  have le: "last es \<noteq> [] \<and> CHR ''/'' \<notin> set (last es)"
    using assms by (auto simp: canon_def plain_def)
  then have lj: "strings_Join es ''/'' \<noteq> [] \<and> last (strings_Join es ''/'') = last (last es)"
    using last_Join[OF assms(2)] by blast
  have ne: "?s \<noteq> []" using lj by (simp add: render_def)
  have "last ?s = last (last es)" using lj assms(2) by (simp add: render_def)
  then have ls: "last ?s \<noteq> CHR ''/''" using le by (metis last_in_set)
  have "dropWhile (\<lambda>c. c = CHR ''/'') (rev ?s) = rev ?s"
    using ne ls by (rule dropWhile_rev_last)
  then have k: "rev (dropWhile (\<lambda>c. c = CHR ''/'') (rev ?s)) = ?s" by simp
  have ns: "?s \<noteq> ''/''" using ls by auto
  have "last (strings_Split ?s CHR ''/'') = last es"
    using Split_render[OF assms(1)] assms(2) by simp
  then show ?thesis unfolding basename_def k Let_def using ne ns by simp
qed

lemma child_path:
  assumes b: "filepath_Clean base = base" and v: "valid_name name"
  shows "filepath_Join [base, name] =
           render (is_rooted base) (clean_elems base @ [name]) \<and>
         canon (is_rooted base) (clean_elems base @ [name])"
proof -
  have bne: "base \<noteq> []" using b by (auto simp: filepath_Clean_def)
  let ?J = "base @ CHR ''/'' # name"
  have ns: "CHR ''/'' \<notin> set name" "name \<noteq> []" "name \<noteq> ''.''" "name \<noteq> ''..''"
    using v by (auto simp: valid_name_def plain_def)
  have j: "filepath_Join [base, name] = filepath_Clean ?J"
    using bne by (simp add: filepath_Join_def split: list.splits)
  have rt: "is_rooted ?J = is_rooted base" using bne by (cases base) (auto simp: is_rooted_def)
  have sp: "strings_Split ?J CHR ''/'' = strings_Split base CHR ''/'' @ [name]"
    using Split_general_append[of base "CHR ''/''" name] Split_single[OF ns(1)] by simp
  have ce: "clean_elems ?J = clean_elems base @ [name]"
    unfolding clean_elems_def[of ?J] rt sp using ns by (simp add: clean_elems_def clean_elem_def)
  have "canon (is_rooted ?J) (clean_elems ?J)" by (rule canon_clean_elems)
  then have cn: "canon (is_rooted base) (clean_elems base @ [name])" using rt ce by simp
  have "filepath_Clean ?J = render (is_rooted ?J) (clean_elems ?J)" by (rule Clean_render) simp
  then show ?thesis using j rt ce cn by simp
qed

lemma base_render:
  assumes b: "filepath_Clean base = base"
  shows "base = render (is_rooted base) (clean_elems base)"
proof -
  have bne: "base \<noteq> []" using b by (auto simp: filepath_Clean_def)
  show ?thesis using Clean_render[OF bne] b by simp
qed

lemma Rel_child:
  assumes b: "filepath_Clean base = base" and nd: "base \<noteq> ''.''" and v: "valid_name name"
  shows "filepath_Rel base (filepath_Join [base, name]) = Inr name"
proof -
  let ?r = "is_rooted base" and ?es = "clean_elems base"
  let ?f = "filepath_Join [base, name]"
  have cb: "canon ?r ?es" by (rule canon_clean_elems)
  have br: "base = render ?r ?es" by (rule base_render[OF b])
  have fr: "?f = render ?r (?es @ [name])" and cf: "canon ?r (?es @ [name])"
    using child_path[OF b v] by auto
  have ro: "?r \<or> ?es \<noteq> []" using br nd by (auto simp: render_def)
  have fne: "?f \<noteq> []"
    using fr last_Join[of "?es @ [name]" "''/''"] v
    by (auto simp: render_def valid_name_def plain_def)
  have cf': "filepath_Clean ?f = ?f"
  proof -
    have "?f = filepath_Clean (base @ CHR ''/'' # name)"
      using b by (auto simp: filepath_Join_def filepath_Clean_def split: list.splits)
    then show ?thesis using Clean_idem by metis
  qed
  have rb: "rel_elems base = (if ?r then [] # ?es else ?es)"
    using rel_elems_render[OF cb ro] br by simp
  have rf: "rel_elems ?f = (if ?r then [] # (?es @ [name]) else ?es @ [name])"
    using rel_elems_render[OF cf] fr by simp
  have "rel_elems ?f \<noteq> rel_elems base" unfolding rb rf by (cases ?r) simp_all
  then have neq: "?f \<noteq> base" by auto
  have rtf: "is_rooted ?f = ?r"
  proof (cases ?r)
    case True then show ?thesis using fr by (simp add: render_def is_rooted_def)
  next
    case False
    have "\<not> is_rooted (strings_Join (?es @ [name]) ''/'')"
      using Join_not_rooted[of "?es @ [name]"] canon_hd[OF cf] by simp
    then show ?thesis using False fr by (simp add: render_def)
  qed
  have "rel_elems ?f = rel_elems base @ [name]" unfolding rb rf by (cases ?r) simp_all
  then have sc: "strip_common (rel_elems base) (rel_elems ?f) = ([], [name])"
    using strip_common_append[of "rel_elems base" "[name]"] by simp
  show ?thesis
    unfolding filepath_Rel_def Let_def b cf' using neq nd rtf sc by simp
qed

lemma basename_child:
  assumes b: "filepath_Clean base = base" and v: "valid_name name"
  shows "basename (filepath_Join [base, name]) = name"
  using child_path[OF b v] basename_render[of "is_rooted base" "clean_elems base @ [name]"]
  by simp

lemma basename_base:
  assumes b: "filepath_Clean base = base" and nd: "base \<noteq> ''.''"
  shows "basename base \<noteq> ''.''"
proof (cases "clean_elems base = []")
  case True
  then have "base = ''/''" using base_render[OF b] nd by (auto simp: render_def split: if_splits)
  then show ?thesis by (simp add: basename_def)
next
  case False
  have c: "canon (is_rooted base) (clean_elems base)" by (rule canon_clean_elems)
  have "basename base = last (clean_elems base)"
    using basename_render[OF c False] base_render[OF b] by simp
  moreover have "plain (last (clean_elems base))" using c False by (auto simp: canon_def)
  ultimately show ?thesis by (auto simp: plain_def)
qed

lemma Rel_self: "filepath_Rel base base = Inr ''.''"
  by (simp add: filepath_Rel_def Let_def)


lemma walkFn_child:
  assumes b: "filepath_Clean base = base" and nd: "base \<noteq> ''.''" and v: "valid_name name"
    and pa: "perm_answers (Perm c) name" and cb: "\<forall>calls fi. callback calls fi = None"
  shows "ListDir_walkFn c base callback (filepath_Join [base, name])
           (Some (node_info (basename (filepath_Join [base, name])) n)) None calls =
         (if is_Dir n then Some SkipDir else None, calls @ [list_entry c name n])"
proof -
  obtain m ow gr where p: "GetMode (Perm c) name = Inr m" "GetOwner (Perm c) name = Inr ow"
      "GetGroup (Perm c) name = Inr gr"
    using pa by (auto simp: perm_answers_def split: sum.splits)
  have nm: "fi_Name (node_info name n) = name" "fi_IsDir (node_info name n) = is_Dir n"
    by (cases n; simp add: node_info_def is_Dir_def)+
  show ?thesis
    unfolding ListDir_walkFn_def Let_def basename_child[OF b v] Rel_child[OF b nd v]
    using p nm cb by (simp add: list_entry_def)
qed

lemma walk_child:
  assumes b: "filepath_Clean base = base" and nd: "base \<noteq> ''.''" and v: "valid_name name"
    and pa: "perm_answers (Perm c) name" and cb: "\<forall>calls fi. callback calls fi = None"
  shows "walk (ListDir_walkFn c base callback) (filepath_Join [base, name]) n calls =
         (if is_Dir n then Some SkipDir else None, calls @ [list_entry c name n])"
proof (cases n)
  case (File x)
  then show ?thesis using walkFn_child[OF b nd v pa cb, of n calls] by simp
next
  case (Dir ents)
  then show ?thesis using walkFn_child[OF b nd v pa cb, of n calls] by (simp add: is_Dir_def)
qed

lemma walk_names_children:
  assumes b: "filepath_Clean base = base" and nd: "base \<noteq> ''.''"
    and cb: "\<forall>calls fi. callback calls fi = None"
  shows "\<forall>name \<in> set names. name \<in> fst ` set ents \<and> valid_name name \<and> perm_answers (Perm c) name \<Longrightarrow>
     walk_names (ListDir_walkFn c base callback) base ents names calls =
       (None, calls @ map (\<lambda>name. list_entry c name (the (map_of ents name))) names)"
proof (induction names arbitrary: calls)
  case Nil
  then show ?case by simp
next
  case (Cons name names)
  have v: "valid_name name" and pa: "perm_answers (Perm c) name" and i: "name \<in> fst ` set ents"
    using Cons.prems by auto
  obtain n where n: "map_of ents name = Some n"
    using i by (metis domIff dom_map_of_conv_image_fst not_Some_eq)
  have w: "walk (ListDir_walkFn c base callback) (filepath_Join [base, name]) n calls =
         (if is_Dir n then Some SkipDir else None, calls @ [list_entry c name n])"
    by (rule walk_child[OF b nd v pa cb])
  have ih: "walk_names (ListDir_walkFn c base callback) base ents names (calls @ [list_entry c name n]) =
       (None, (calls @ [list_entry c name n]) @ map (\<lambda>name. list_entry c name (the (map_of ents name))) names)"
    using Cons.IH[of "calls @ [list_entry c name n]"] Cons.prems by simp
  show ?case using n w ih by (simp add: Let_def)
qed

text \<open>
  Where the physical path of the directory is not \<^verbatim>\<open>.\<close>, the oracle answers for every entry
  and the callback returns nil, \<^verbatim>\<open>ListDir\<close> returns nil and has called the callback once on
  each immediate child, in the order of the names, and on nothing else: not on the
  directory itself and not on anything below a child.
\<close>

theorem ListDir_lists_children:
  assumes dir: "os_node os (realPath (RootPath c) p) = Inr (Dir ents)"
    and nd: "realPath (RootPath c) p \<noteq> ''.''"
    and names: "\<forall>name \<in> fst ` set ents. valid_name name \<and> perm_answers (Perm c) name"
    and cb: "\<forall>calls fi. callback calls fi = None"
  shows "ListDir c os p callback =
           (None, map (\<lambda>name. list_entry c name (the (map_of ents name))) (readDirNames ents))"
proof -
  let ?base = "realPath (RootPath c) p"
  let ?fn = "ListDir_walkFn c ?base callback"
  have bne: "?base \<noteq> []" using dir by (auto simp: os_node_def resolve_def split: if_splits)
  have b: "filepath_Clean ?base = ?base"
  proof -
    obtain J where "?base = filepath_Clean J"
      using bne by (auto simp: realPath_def filepath_Join_def split: list.splits)
    then show ?thesis using Clean_idem by metis
  qed
  have root: "?fn ?base (Some (node_info (basename ?base) (Dir ents))) None [] = (None, [])"
    using basename_base[OF b nd]
    by (auto simp: ListDir_walkFn_def Let_def Rel_self node_info_def)
  have "\<forall>name \<in> set (readDirNames ents).
          name \<in> fst ` set ents \<and> valid_name name \<and> perm_answers (Perm c) name"
    using names by (simp add: readDirNames_def)
  then have wn: "walk_names ?fn ?base ents (readDirNames ents) [] =
      (None, [] @ map (\<lambda>name. list_entry c name (the (map_of ents name))) (readDirNames ents))"
    by (rule walk_names_children[OF b nd cb])
  have "walk ?fn ?base (Dir ents) [] =
      (None, map (\<lambda>name. list_entry c name (the (map_of ents name))) (readDirNames ents))"
    using root wn by simp
  then show ?thesis using dir by (simp add: ListDir_def Let_def filepath_Walk_def)
qed

lemma sorted_names: "readDirNames [(''hello.txt'', a), (''docs'', b)] = [''docs'', ''hello.txt'']"
  by (simp add: readDirNames_def less_eq_char_def less_char_def)

subsection \<open>The paths handed to the host\<close>

lemma child_under:
  assumes b: "filepath_Clean base = base" and v: "valid_name name" and u: "lexically_under root base"
  shows "filepath_Clean (filepath_Join [base, name]) = filepath_Join [base, name] \<and>
         lexically_under root (filepath_Join [base, name])"
proof -
  have bne: "base \<noteq> []" using b by (auto simp: filepath_Clean_def)
  let ?J = "base @ CHR ''/'' # name"
  have ns: "CHR ''/'' \<notin> set name" "name \<noteq> []" "name \<noteq> ''.''" "name \<noteq> ''..''"
    using v by (auto simp: valid_name_def plain_def)
  have j: "filepath_Join [base, name] = filepath_Clean ?J"
    using bne by (simp add: filepath_Join_def split: list.splits)
  have rt: "is_rooted ?J = is_rooted base" using bne by (cases base) (auto simp: is_rooted_def)
  have sp: "strings_Split ?J CHR ''/'' = strings_Split base CHR ''/'' @ [name]"
    using Split_general_append[of base "CHR ''/''" name] Split_single[OF ns(1)] by simp
  have ce: "clean_elems ?J = clean_elems base @ [name]"
    unfolding clean_elems_def[of ?J] rt sp using ns by (simp add: clean_elems_def clean_elem_def)
  have 1: "filepath_Clean (filepath_Join [base, name]) = filepath_Join [base, name]"
    unfolding j by (rule Clean_idem)
  have r: "is_rooted (filepath_Join [base, name]) = is_rooted base"
    unfolding j is_rooted_Clean by (rule rt)
  have e: "clean_elems (filepath_Join [base, name]) = clean_elems base @ [name]"
    unfolding j clean_elems_Clean by (rule ce)
  have len: "length (clean_elems root) \<le> length (clean_elems base)"
  proof -
    have "length (take (length (clean_elems root)) (clean_elems base)) = length (clean_elems root)"
      using u by (simp add: lexically_under_def)
    then show ?thesis by simp
  qed
  have 2: "lexically_under root (filepath_Join [base, name])"
    using u len ns unfolding lexically_under_def r e by simp
  show ?thesis using 1 2 by blast
qed

lemma valid_names_child:
  "valid_names (Dir ents) \<Longrightarrow> map_of ents name = Some n \<Longrightarrow> valid_names n"
proof -
  assume a: "valid_names (Dir ents)" "map_of ents name = Some n"
  have "(name, n) \<in> set ents" using a(2) by (rule map_of_SomeD)
  moreover have "\<forall>x \<in> set ents. valid_names (snd x)" using a(1) by simp
  ultimately have "valid_names (snd (name, n))" by blast
  then show ?thesis by simp
qed

lemma valid_names_names:
  "valid_names (Dir ents) \<Longrightarrow> name \<in> set (readDirNames ents) \<Longrightarrow> valid_name name"
  by (auto simp: readDirNames_def)

lemma visiting_step:
  "visiting walkFn path info err (s, v) =
     (fst (walkFn path info err s), (snd (walkFn path info err s), v @ [path]))"
  by (simp add: visiting_def split: prod.splits)

lemma walk_visiting:
  "\<forall>v. fst (walk (visiting fn) path n (s, v)) = fst (walk fn path n s) \<and>
       fst (snd (walk (visiting fn) path n (s, v))) = snd (walk fn path n s)"
  "\<forall>v. fst (walk_names (visiting fn) path ents names (s, v)) = fst (walk_names fn path ents names s) \<and>
       fst (snd (walk_names (visiting fn) path ents names (s, v))) = snd (walk_names fn path ents names s)"
proof (induction fn path n s and fn path ents names s rule: walk_walk_names.induct)
  case (1 walkFn path c s)
  show ?case
  proof
    fix v
    obtain e s' where r: "walkFn path (Some (node_info (basename path) (File c))) None s = (e, s')"
      by (cases "walkFn path (Some (node_info (basename path) (File c))) None s") auto
    show "fst (walk (visiting walkFn) path (File c) (s, v)) = fst (walk walkFn path (File c) s) \<and>
          fst (snd (walk (visiting walkFn) path (File c) (s, v))) = snd (walk walkFn path (File c) s)"
      using r by (simp add: visiting_step)
  qed
next
  case (2 walkFn path ents s)
  show ?case
  proof
    fix v
    obtain e s' where r: "walkFn path (Some (node_info (basename path) (Dir ents))) None s = (e, s')"
      by (cases "walkFn path (Some (node_info (basename path) (Dir ents))) None s") auto
    note vr = visiting_step
    show "fst (walk (visiting walkFn) path (Dir ents) (s, v)) = fst (walk walkFn path (Dir ents) s) \<and>
          fst (snd (walk (visiting walkFn) path (Dir ents) (s, v))) = snd (walk walkFn path (Dir ents) s)"
    proof (cases e)
      case None
      then show ?thesis using r 2[of None s'] by (simp add: vr)
    next
      case (Some err)
      then show ?thesis using r by (simp add: vr)
    qed
  qed
next
  case (3 walkFn path ents s)
  show ?case by simp
next
  case (4 walkFn path ents name names s)
  let ?f = "filepath_Join [path, name]"
  show ?case
  proof
    fix v
    show "fst (walk_names (visiting walkFn) path ents (name # names) (s, v)) =
            fst (walk_names walkFn path ents (name # names) s) \<and>
          fst (snd (walk_names (visiting walkFn) path ents (name # names) (s, v))) =
            snd (walk_names walkFn path ents (name # names) s)"
    proof (cases "map_of ents name")
      case None
      obtain e s' where r: "walkFn ?f None (Some (PathError ''lstat'' ?f ENOENT)) s = (e, s')"
        by (cases "walkFn ?f None (Some (PathError ''lstat'' ?f ENOENT)) s") auto
      note vr = visiting_step
      show ?thesis
      proof (cases e)
        case N: None
        show ?thesis using None r N 4(1)[OF refl None, of None s'] by (simp add: Let_def vr)
      next
        case (Some err)
        show ?thesis
        proof (cases "err = SkipDir")
          case True
          then show ?thesis using None r Some 4(2)[OF refl None, of "Some err" s' err]
            by (simp add: Let_def vr)
        next
          case False
          then show ?thesis using None r Some by (simp add: Let_def vr)
        qed
      qed
    next
      case (Some n)
      obtain e s' where r: "walk walkFn ?f n s = (e, s')" by (cases "walk walkFn ?f n s") auto
      obtain v' where r': "walk (visiting walkFn) ?f n (s, v) = (e, (s', v'))"
        using 4(3)[OF refl Some, rule_format, of v] r
        by (cases "walk (visiting walkFn) ?f n (s, v)") auto
      show ?thesis
      proof (cases e)
        case None
        show ?thesis using Some r r' None 4(4)[OF refl Some, of None s'] by (simp add: Let_def)
      next
        case E: (Some err)
        show ?thesis
        proof (cases "\<not> is_Dir n \<or> err \<noteq> SkipDir")
          case True
          then show ?thesis using Some r r' E by (simp add: Let_def)
        next
          case False
          then show ?thesis using Some r r' E 4(5)[OF refl Some, of "Some err" s' err] by (simp add: Let_def)
        qed
      qed
    qed
  qed
qed

lemma walk_visited_under:
  "\<forall>v. valid_names n \<longrightarrow> filepath_Clean path = path \<longrightarrow> lexically_under root path \<longrightarrow>
       (\<forall>x \<in> set v. lexically_under root x) \<longrightarrow>
       (\<forall>x \<in> set (snd (snd (walk (visiting fn) path n (s, v)))). lexically_under root x)"
  "\<forall>v. valid_names (Dir ents) \<longrightarrow> set names \<subseteq> set (readDirNames ents) \<longrightarrow>
       filepath_Clean path = path \<longrightarrow> lexically_under root path \<longrightarrow>
       (\<forall>x \<in> set v. lexically_under root x) \<longrightarrow>
       (\<forall>x \<in> set (snd (snd (walk_names (visiting fn) path ents names (s, v)))). lexically_under root x)"
proof (induction fn path n s and fn path ents names s rule: walk_walk_names.induct)
  case (1 walkFn path c s)
  show ?case by (simp add: visiting_step)
next
  case (2 walkFn path ents s)
  show ?case
  proof (intro allI impI)
    fix v
    assume a: "valid_names (Dir ents)" "filepath_Clean path = path" "lexically_under root path"
      "\<forall>x \<in> set v. lexically_under root x"
    obtain e s' where r: "walkFn path (Some (node_info (basename path) (Dir ents))) None s = (e, s')"
      by (cases "walkFn path (Some (node_info (basename path) (Dir ents))) None s") auto
    have v': "\<forall>x \<in> set (v @ [path]). lexically_under root x" using a by simp
    show "\<forall>x \<in> set (snd (snd (walk (visiting walkFn) path (Dir ents) (s, v)))). lexically_under root x"
    proof (cases e)
      case None
      have "\<forall>x \<in> set (snd (snd (walk_names (visiting walkFn) path ents (readDirNames ents) (s', v @ [path])))).
              lexically_under root x"
        using 2[of None s', rule_format, of "v @ [path]"] r None a v' by simp
      then show ?thesis using r None by (simp add: visiting_step)
    next
      case (Some err)
      then show ?thesis using r v' by (simp add: visiting_step)
    qed
  qed
next
  case (3 walkFn path ents s)
  show ?case by simp
next
  case (4 walkFn path ents name names s)
  let ?f = "filepath_Join [path, name]"
  show ?case
  proof (intro allI impI)
    fix v
    assume a: "valid_names (Dir ents)" "set (name # names) \<subseteq> set (readDirNames ents)"
      "filepath_Clean path = path" "lexically_under root path"
      "\<forall>x \<in> set v. lexically_under root x"
    have vn: "valid_name name" using valid_names_names[OF a(1), of name] a(2) by simp
    have sub: "set names \<subseteq> set (readDirNames ents)" using a(2) by simp
    have f: "filepath_Clean ?f = ?f" "lexically_under root ?f"
      using child_under[OF a(3) vn a(4)] by simp_all
    have vf: "\<forall>x \<in> set (v @ [?f]). lexically_under root x" using a(5) f(2) by simp
    show "\<forall>x \<in> set (snd (snd (walk_names (visiting walkFn) path ents (name # names) (s, v)))).
            lexically_under root x"
    proof (cases "map_of ents name")
      case None
      obtain e s' where r: "walkFn ?f None (Some (PathError ''lstat'' ?f ENOENT)) s = (e, s')"
        by (cases "walkFn ?f None (Some (PathError ''lstat'' ?f ENOENT)) s") auto
      show ?thesis
      proof (cases e)
        case N: None
        have "\<forall>x \<in> set (snd (snd (walk_names (visiting walkFn) path ents names (s', v @ [?f])))).
                lexically_under root x"
          using 4(1)[OF refl None, of None s', rule_format, of "v @ [?f]"] r N a(1,3,4) sub vf by simp
        then show ?thesis using None r N by (simp add: Let_def visiting_step)
      next
        case (Some err)
        show ?thesis
        proof (cases "err = SkipDir")
          case True
          have "\<forall>x \<in> set (snd (snd (walk_names (visiting walkFn) path ents names (s', v @ [?f])))).
                  lexically_under root x"
            using 4(2)[OF refl None, of "Some err" s' err, rule_format, of "v @ [?f]"]
              r Some True a(1,3,4) sub vf by simp
          then show ?thesis using None r Some True by (simp add: Let_def visiting_step)
        next
          case False
          then show ?thesis using None r Some vf by (simp add: Let_def visiting_step)
        qed
      qed
    next
      case (Some n)
      have vnn: "valid_names n" using valid_names_child[OF a(1) Some] .
      obtain e s' where r: "walk walkFn ?f n s = (e, s')" by (cases "walk walkFn ?f n s") auto
      obtain v' where r': "walk (visiting walkFn) ?f n (s, v) = (e, (s', v'))"
        using walk_visiting(1)[of walkFn ?f n s, rule_format, of v] r
        by (cases "walk (visiting walkFn) ?f n (s, v)") auto
      have "\<forall>x \<in> set (snd (snd (walk (visiting walkFn) ?f n (s, v)))). lexically_under root x"
        using 4(3)[OF refl Some, rule_format, of v] vnn f a(5) by simp
      then have v': "\<forall>x \<in> set v'. lexically_under root x" using r' by simp
      show ?thesis
      proof (cases e)
        case None
        have "\<forall>x \<in> set (snd (snd (walk_names (visiting walkFn) path ents names (s', v')))).
                lexically_under root x"
          using 4(4)[OF refl Some, of None s', rule_format, of v'] r None a(1,3,4) sub v' by simp
        then show ?thesis using Some r' None by (simp add: Let_def)
      next
        case E: (Some err)
        show ?thesis
        proof (cases "\<not> is_Dir n \<or> err \<noteq> SkipDir")
          case True
          then show ?thesis using Some r' E v' by (simp add: Let_def)
        next
          case False
          have "\<forall>x \<in> set (snd (snd (walk_names (visiting walkFn) path ents names (s', v')))).
                  lexically_under root x"
            using 4(5)[OF refl Some, of "Some err" s' err, rule_format, of v'] r E False a(1,3,4) sub v'
            by simp
          then show ?thesis using Some r' E False by (simp add: Let_def)
        qed
      qed
    qed
  qed
qed

lemma clean_elem_name: "plain n \<Longrightarrow> n \<noteq> ''..'' \<Longrightarrow> clean_elem r out n = out @ [n]"
  by (simp add: clean_elem_def plain_def)

lemma foldl_clean_twice:
  "\<forall>e \<in> set es. CHR ''/'' \<notin> set e \<Longrightarrow>
     foldl (clean_elem r) W (foldl (clean_elem False) [] es) = foldl (clean_elem r) W es"
proof (induction es rule: rev_induct)
  case Nil
  then show ?case by simp
next
  case (snoc e es)
  let ?C = "foldl (clean_elem False) [] es"
  have ns: "\<forall>e \<in> set es. CHR ''/'' \<notin> set e" using snoc.prems by simp
  have ih: "foldl (clean_elem r) W ?C = foldl (clean_elem r) W es" using snoc.IH[OF ns] .
  have cn: "canon False ?C" by (rule canon_foldl) (use ns in \<open>auto simp: canon_def\<close>)
  have goal: "foldl (clean_elem r) W (clean_elem False ?C e) = clean_elem r (foldl (clean_elem r) W ?C) e"
  proof (cases "e = ''..'' \<and> ?C \<noteq> [] \<and> last ?C \<noteq> ''..''")
    case True
    then obtain C0 n where C: "?C = C0 @ [n]" "n \<noteq> ''..''"
      by (metis append_butlast_last_id last_snoc)
    have "plain n" using cn C by (simp add: canon_def)
    then have 1: "foldl (clean_elem r) W ?C = foldl (clean_elem r) W C0 @ [n]"
      unfolding C(1) using C(2) by (simp add: clean_elem_name)
    have 2: "clean_elem False ?C e = C0" using True C by (simp add: clean_elem_def)
    have 3: "clean_elem r (foldl (clean_elem r) W C0 @ [n]) e = foldl (clean_elem r) W C0"
      using True C(2) by (simp add: clean_elem_def)
    show ?thesis unfolding 1 2 3 ..
  next
    case False
    have "clean_elem False ?C e = ?C \<or> clean_elem False ?C e = ?C @ [e]"
      using False by (auto simp: clean_elem_def)
    then show ?thesis
    proof
      assume s: "clean_elem False ?C e = ?C"
      then have "e = [] \<or> e = ''.''" using False by (auto simp: clean_elem_def split: if_splits)
      then have "clean_elem r (foldl (clean_elem r) W ?C) e = foldl (clean_elem r) W ?C"
        by (auto simp: clean_elem_def)
      then show ?thesis using s by simp
    next
      assume "clean_elem False ?C e = ?C @ [e]"
      then show ?thesis by simp
    qed
  qed
  show ?case using goal ih by simp
qed

lemma clean_elems_rel:
  "\<not> is_rooted a \<Longrightarrow> foldl (clean_elem r) W (clean_elems a) = foldl (clean_elem r) W (strings_Split a CHR ''/'')"
  unfolding clean_elems_def using foldl_clean_twice[of "strings_Split a CHR ''/''" r W] Split_no_sep
  by fastforce

lemma Join_wd:
  assumes "wd \<noteq> []" "\<not> is_rooted a"
  shows "is_rooted (filepath_Join [wd, a]) = is_rooted wd \<and>
         clean_elems (filepath_Join [wd, a]) =
           foldl (clean_elem (is_rooted wd)) (clean_elems wd) (clean_elems a)"
proof -
  let ?J = "wd @ CHR ''/'' # a"
  have j: "filepath_Join [wd, a] = filepath_Clean ?J"
    using assms(1) by (simp add: filepath_Join_def split: list.splits)
  have rt: "is_rooted ?J = is_rooted wd" using assms(1) by (cases wd) (auto simp: is_rooted_def)
  have sp: "strings_Split ?J CHR ''/'' = strings_Split wd CHR ''/'' @ strings_Split a CHR ''/''"
    by (rule Split_general_append)
  have "clean_elems ?J = foldl (clean_elem (is_rooted wd)) (clean_elems wd) (strings_Split a CHR ''/'')"
    unfolding clean_elems_def[of ?J] rt sp by (simp add: clean_elems_def)
  then have "clean_elems ?J = foldl (clean_elem (is_rooted wd)) (clean_elems wd) (clean_elems a)"
    using clean_elems_rel[OF assms(2)] by simp
  then show ?thesis unfolding j clean_elems_Clean is_rooted_Clean using rt by simp
qed

lemma clean_elems_Nil: "clean_elems [] = []"
  by (simp add: clean_elems_def is_rooted_def clean_elem_def)

lemma foldl_names:
  "\<forall>e \<in> set S. plain e \<Longrightarrow> ''..'' \<notin> set S \<Longrightarrow> foldl (clean_elem r) out S = out @ S"
proof (induction S arbitrary: out)
  case Nil
  then show ?case by simp
next
  case (Cons e S)
  have "plain e" "e \<noteq> ''..''" using Cons.prems by auto
  then have "clean_elem r out e = out @ [e]" by (rule clean_elem_name)
  then show ?case using Cons by simp
qed

lemma Abs_under:
  assumes u: "lexically_under root q"
    and R: "filepath_Abs os root = Inr R" and x: "filepath_Abs os q = Inr x"
  shows "lexically_under R x"
proof (cases "is_rooted root")
  case True
  then have rq: "is_rooted q" using u by (simp add: lexically_under_def)
  have "R = filepath_Clean root" "x = filepath_Clean q"
    using R x True rq by (simp_all add: filepath_Abs_def)
  then show ?thesis using u by (simp add: lexically_under_def clean_elems_Clean is_rooted_Clean)
next
  case False
  then have nq: "\<not> is_rooted q" using u by (simp add: lexically_under_def)
  obtain wd where wd: "cwd os = Some wd"
    using R False by (auto simp: filepath_Abs_def os_Getwd_def split: option.splits)
  have Rj: "R = filepath_Join [wd, root]" and xj: "x = filepath_Join [wd, q]"
    using R x False nq wd by (simp_all add: filepath_Abs_def os_Getwd_def)
  obtain S where S: "clean_elems q = clean_elems root @ S" "''..'' \<notin> set S"
  proof -
    have "clean_elems q = take (length (clean_elems root)) (clean_elems q) @
            drop (length (clean_elems root)) (clean_elems q)" by simp
    then show ?thesis using that u unfolding lexically_under_def by metis
  qed
  have "canon (is_rooted q) (clean_elems q)" by (rule canon_clean_elems)
  then have pl: "\<forall>e \<in> set S. plain e" using S(1) by (simp add: canon_def)
  show ?thesis
  proof (cases "wd = []")
    case True
    have "R = (if root = [] then [] else filepath_Clean root)"
      "x = (if q = [] then [] else filepath_Clean q)"
      unfolding Rj xj using True by (simp_all add: filepath_Join_def split: list.splits)
    then have "clean_elems R = clean_elems root" "clean_elems x = clean_elems q"
      "is_rooted R = is_rooted root" "is_rooted x = is_rooted q"
      by (simp_all add: clean_elems_Clean is_rooted_Clean)
    then show ?thesis using u by (simp add: lexically_under_def)
  next
    case ne: False
    let ?W = "clean_elems wd" and ?r = "is_rooted wd"
    have 1: "is_rooted R = ?r" "clean_elems R = foldl (clean_elem ?r) ?W (clean_elems root)"
      unfolding Rj using Join_wd[OF ne False] by simp_all
    have 2: "is_rooted x = ?r" "clean_elems x = foldl (clean_elem ?r) ?W (clean_elems q)"
      unfolding xj using Join_wd[OF ne nq] by simp_all
    have "clean_elems x = foldl (clean_elem ?r) (clean_elems R) S"
      unfolding 2(2) 1(2) S(1) by simp
    then have "clean_elems x = clean_elems R @ S" using foldl_names[OF pl S(2)] by simp
    then show ?thesis using 1(1) 2(1) S(2) by (simp add: lexically_under_def)
  qed
qed

lemma traced_results:
  "fst (ChangeDir_traced f os p) = ChangeDir f os p"
  "fst (Stat_traced f os p) = Stat f os p"
  "fst (DeleteDir_traced f os p) = DeleteDir f os p"
  "fst (DeleteFile_traced f os p) = DeleteFile f os p"
  "fst (Rename_traced f os p p') = Rename f os p p'"
  "fst (MakeDir_traced f os p) = MakeDir f os p"
  "fst (GetFile_traced f os p offset) = GetFile f os p offset"
  by (simp_all add: ChangeDir_traced_def ChangeDir_def Stat_traced_def Stat_def
        DeleteDir_traced_def DeleteDir_def DeleteFile_traced_def DeleteFile_def
        Rename_traced_def Rename_def MakeDir_traced_def MakeDir_def
        GetFile_traced_def GetFile_def Let_def split: sum.splits)

lemma PutFile_traced_result:
  "fst (PutFile_traced f os p d a) = PutFile f os p d a"
  unfolding PutFile_traced_def PutFile_def Let_def
  by (simp split: sum.splits prod.splits option.splits)

lemma ListDir_traced_result:
  "fst (ListDir_traced c os p callback) = ListDir c os p callback"
proof -
  let ?b = "realPath (RootPath c) p"
  let ?fn = "ListDir_walkFn c ?b callback"
  show ?thesis
  proof (cases "os_node os ?b")
    case (Inl e)
    then show ?thesis
      by (simp add: ListDir_traced_def ListDir_def Let_def filepath_Walk_def visiting_step
            split: prod.splits option.splits)
  next
    case (Inr n)
    obtain e s' where r: "walk ?fn ?b n [] = (e, s')" by (cases "walk ?fn ?b n []") auto
    obtain v' where r': "walk (visiting ?fn) ?b n ([], []) = (e, (s', v'))"
      using walk_visiting(1)[of ?fn ?b n "[]", rule_format, of "[]"] r
      by (cases "walk (visiting ?fn) ?b n ([], [])") auto
    show ?thesis using Inr r r'
      by (simp add: ListDir_traced_def ListDir_def Let_def filepath_Walk_def split: option.splits)
  qed
qed

lemma traced_paths:
  "set (snd (ChangeDir_traced f os p)) \<subseteq> {realPath (RootPath f) p}"
  "set (snd (DeleteDir_traced f os p)) \<subseteq> {realPath (RootPath f) p}"
  "set (snd (DeleteFile_traced f os p)) \<subseteq> {realPath (RootPath f) p}"
  "set (snd (Rename_traced f os p p')) \<subseteq> {realPath (RootPath f) p, realPath (RootPath f) p'}"
  "set (snd (MakeDir_traced f os p)) \<subseteq> {realPath (RootPath f) p}"
  "set (snd (GetFile_traced f os p offset)) \<subseteq> {realPath (RootPath f) p}"
  by (simp_all add: ChangeDir_traced_def DeleteDir_traced_def DeleteFile_traced_def
        Rename_traced_def MakeDir_traced_def GetFile_traced_def Let_def split: sum.splits)

lemma PutFile_traced_paths:
  "set (snd (PutFile_traced f os p d a)) \<subseteq> {realPath (RootPath f) p}"
  unfolding PutFile_traced_def Let_def
  by (simp split: sum.splits prod.splits option.splits)

lemma Stat_traced_paths:
  "set (snd (Stat_traced f os p)) \<subseteq> {x. filepath_Abs os (realPath (RootPath f) p) = Inr x}"
  by (simp add: Stat_traced_def Let_def split: sum.splits)

lemma paths_under_sub: "set ps \<subseteq> A \<Longrightarrow> \<forall>x \<in> A. lexically_under root x \<Longrightarrow> paths_under root ps"
  by (auto simp: paths_under_def list_all_iff)

lemma realPath_Clean: "realPath root p \<noteq> [] \<Longrightarrow> filepath_Clean (realPath root p) = realPath root p"
proof -
  assume "realPath root p \<noteq> []"
  then obtain J where "realPath root p = filepath_Clean J"
    by (auto simp: realPath_def filepath_Join_def split: list.splits)
  then show ?thesis using Clean_idem by metis
qed

lemma ListDir_traced_paths:
  assumes u: "lexically_under (RootPath c) (realPath (RootPath c) p)"
    and v: "\<forall>n. os_node os (realPath (RootPath c) p) = Inr n \<longrightarrow> valid_names n"
  shows "paths_under (RootPath c) (snd (ListDir_traced c os p callback))"
proof -
  let ?b = "realPath (RootPath c) p"
  let ?fn = "ListDir_walkFn c ?b callback"
  show ?thesis
  proof (cases "os_node os ?b")
    case (Inl e)
    then show ?thesis using u
      by (simp add: ListDir_traced_def Let_def filepath_Walk_def visiting_step paths_under_def
            split: prod.splits option.splits)
  next
    case (Inr n)
    have bne: "?b \<noteq> []" using Inr by (auto simp: os_node_def resolve_def split: if_splits)
    have b: "filepath_Clean ?b = ?b" using realPath_Clean[OF bne] .
    have vn: "valid_names n" using v Inr by simp
    have "\<forall>x \<in> set (snd (snd (walk (visiting ?fn) ?b n ([], [])))). lexically_under (RootPath c) x"
      using walk_visited_under(1)[of n ?b "RootPath c" ?fn "[]", rule_format, of "[]"] vn b u by simp
    then show ?thesis using Inr
      by (simp add: ListDir_traced_def Let_def filepath_Walk_def paths_under_def list_all_iff
            split: prod.splits option.splits)
  qed
qed

text \<open>
  Claim C4, as the code has it. For every virtual path that never climbs above the virtual
  root (it may hold \<^verbatim>\<open>..\<close> elements, as \<^verbatim>\<open>/a/../b\<close> does), \<^verbatim>\<open>realPath\<close> yields a physical path that
  lies lexically under the root path, and every path that an operation of the driver called
  with such a path hands to the host lies under the root: \<^verbatim>\<open>ChangeDir\<close>, \<^verbatim>\<open>DeleteDir\<close>,
  \<^verbatim>\<open>DeleteFile\<close>, \<^verbatim>\<open>MakeDir\<close>, \<^verbatim>\<open>GetFile\<close> and \<^verbatim>\<open>PutFile\<close> hand over the physical path of their
  argument and nothing else, \<^verbatim>\<open>Rename\<close> those of its two arguments; \<^verbatim>\<open>Stat\<close> hands over the
  absolute form of the physical path, which lies under the absolute form of the root path;
  and the paths \<^verbatim>\<open>filepath.Walk\<close> visits for \<^verbatim>\<open>ListDir\<close>, from the physical path through the
  entries below it, lie under the root when the names of those entries are valid file
  names. By \<open>traced_results\<close>, \<open>PutFile_traced_result\<close> and \<open>ListDir_traced_result\<close> the
  operations that record their paths return what the operations themselves return.
\<close>

theorem realPath_contained:
  "stays_within p \<Longrightarrow> stays_within p' \<Longrightarrow>
     lexically_under (RootPath f) (realPath (RootPath f) p) \<and>
     paths_under (RootPath f) (snd (ChangeDir_traced f os p)) \<and>
     (\<forall>R. filepath_Abs os (RootPath f) = Inr R \<longrightarrow> paths_under R (snd (Stat_traced f os p))) \<and>
     ((\<forall>n. os_node os (realPath (RootPath f) p) = Inr n \<longrightarrow> valid_names n) \<longrightarrow>
        paths_under (RootPath f) (snd (ListDir_traced f os p callback))) \<and>
     paths_under (RootPath f) (snd (DeleteDir_traced f os p)) \<and>
     paths_under (RootPath f) (snd (DeleteFile_traced f os p)) \<and>
     paths_under (RootPath f) (snd (Rename_traced f os p p')) \<and>
     paths_under (RootPath f) (snd (MakeDir_traced f os p)) \<and>
     paths_under (RootPath f) (snd (GetFile_traced f os p offset)) \<and>
     paths_under (RootPath f) (snd (PutFile_traced f os p d a))"
proof -
  assume p: "stays_within p" and p': "stays_within p'"
  let ?root = "RootPath f"
  have u: "lexically_under ?root (realPath ?root p)" using p by (rule realPath_under)
  have u': "lexically_under ?root (realPath ?root p')" using p' by (rule realPath_under)
  have 1: "paths_under ?root (snd (ChangeDir_traced f os p))"
    using traced_paths(1) by (rule paths_under_sub) (use u in simp)
  have 2: "\<forall>R. filepath_Abs os ?root = Inr R \<longrightarrow> paths_under R (snd (Stat_traced f os p))"
  proof (intro allI impI)
    fix R assume R: "filepath_Abs os ?root = Inr R"
    have a: "\<forall>x \<in> {x. filepath_Abs os (realPath ?root p) = Inr x}. lexically_under R x"
      using Abs_under[OF u R] by simp
    show "paths_under R (snd (Stat_traced f os p))"
      using Stat_traced_paths a by (rule paths_under_sub)
  qed
  have 3: "(\<forall>n. os_node os (realPath ?root p) = Inr n \<longrightarrow> valid_names n) \<longrightarrow>
        paths_under ?root (snd (ListDir_traced f os p callback))"
    using ListDir_traced_paths[OF u] by blast
  have 4: "paths_under ?root (snd (DeleteDir_traced f os p))"
    using traced_paths(2) by (rule paths_under_sub) (use u in simp)
  have 5: "paths_under ?root (snd (DeleteFile_traced f os p))"
    using traced_paths(3) by (rule paths_under_sub) (use u in simp)
  have 6: "paths_under ?root (snd (Rename_traced f os p p'))"
    using traced_paths(4) by (rule paths_under_sub) (use u u' in simp)
  have 7: "paths_under ?root (snd (MakeDir_traced f os p))"
    using traced_paths(5) by (rule paths_under_sub) (use u in simp)
  have 8: "paths_under ?root (snd (GetFile_traced f os p offset))"
    using traced_paths(6) by (rule paths_under_sub) (use u in simp)
  have 9: "paths_under ?root (snd (PutFile_traced f os p d a))"
    using PutFile_traced_paths by (rule paths_under_sub) (use u in simp)
  show ?thesis using u 1 2 3 4 5 6 7 8 9 by blast
qed

text \<open>
  Claim C4 as stated fails: \<^verbatim>\<open>realPath\<close> resolves \<^verbatim>\<open>..\<close> lexically after joining, so with the root
  \<^verbatim>\<open>./upload\<close> of \<^verbatim>\<open>main.go\<close> the virtual path \<^verbatim>\<open>/../x\<close>, which climbs above the virtual root,
  becomes \<^verbatim>\<open>x\<close>, a sibling of the root.
\<close>

theorem realPath_escapes_root:
  "realPath ''./upload'' ''/../x'' = ''x'' \<and>
   \<not> lexically_under ''./upload'' (realPath ''./upload'' ''/../x'')"
  by (simp add: lexically_under_def realPath_def filepath_Join_def filepath_Clean_def clean_elems_def clean_elem_def is_rooted_def)


section \<open>Properties of the server\<close>


lemma Shutdown_closes:
  assumes "listener s = Some l" "ctx s = Some b"
  shows "listener_closed (fst (Shutdown s)) \<and> ctx_Done (fst (Shutdown s))"
  using assms
  by (simp add: Shutdown_def Listener_Close_def listener_closed_def ctx_Done_def Let_def split: prod.splits)

lemma Serve_loop_closed_done:
  "listener_closed s \<Longrightarrow> ctx_Done s \<Longrightarrow> Serve_loop s evs = Some (ErrServerClosed, s)"
  by (cases evs) (simp_all add: accept_failed_def)

lemma Serve_loop_closed_returns:
  "listener_closed s \<Longrightarrow> Serve_loop s evs \<noteq> None"
  by (cases evs) (simp_all add: accept_failed_def is_temporary_def err_closed_def Let_def)

lemma started_accept_failed: "started s \<Longrightarrow> accept_failed s err = Inr s' \<Longrightarrow> started s'"
  by (auto simp: accept_failed_def started_def doLogger_def Let_def split: if_splits)

lemma started_accepted: "started s \<Longrightarrow> accepted s c sid = Inr s' \<Longrightarrow> started s'"
  by (auto simp: accepted_def started_def doLogger_def split: option.splits sum.splits)

lemma started_Shutdown: "started s \<Longrightarrow> started (fst (Shutdown s))"
  by (auto simp: Shutdown_def started_def Listener_Close_def Let_def split: option.splits prod.splits)

lemma Serve_loop_then_Shutdown:
  "started s \<Longrightarrow> Serve_loop s evs1 = None \<Longrightarrow>
     \<exists>s'. Serve_loop s (evs1 @ ShutdownCalled # evs2) = Some (ErrServerClosed, s')"
proof (induction s evs1 rule: Serve_loop.induct)
  case (1 s)
  then have opn: "\<not> listener_closed s" using Serve_loop_closed_returns[of s "[]"] by auto
  obtain l b where "listener s = Some l" "ctx s = Some b" using 1(1) by (auto simp: started_def)
  then have "listener_closed (fst (Shutdown s))" "ctx_Done (fst (Shutdown s))"
    using Shutdown_closes by blast+
  then show ?case using opn by (simp add: Serve_loop_closed_done)
next
  case (2 s ev evs)
  have opn: "\<not> listener_closed s" using 2(5) Serve_loop_closed_returns[of s "ev # evs"] by auto
  show ?case
  proof (cases ev)
    case (Incoming c sid)
    then obtain s1 where s1: "accepted s c sid = Inr s1" and n: "Serve_loop s1 evs = None"
      using 2(5) opn by (auto split: sum.splits)
    have "started s1" using started_accepted[OF 2(4) s1] .
    then show ?thesis using 2(1)[OF opn Incoming s1 _ n] opn Incoming s1 by simp
  next
    case (AcceptFails err)
    then obtain s1 where s1: "accept_failed s err = Inr s1" and n: "Serve_loop s1 evs = None"
      using 2(5) opn by (auto split: sum.splits)
    have "started s1" using started_accept_failed[OF 2(4) s1] .
    then show ?thesis using 2(2)[OF opn AcceptFails s1 _ n] opn AcceptFails s1 by simp
  next
    case ShutdownCalled
    then have n: "Serve_loop (fst (Shutdown s)) evs = None" using 2(5) opn by simp
    have "started (fst (Shutdown s))" using started_Shutdown[OF 2(4)] .
    then show ?thesis using 2(3)[OF opn ShutdownCalled _ n] opn ShutdownCalled by simp
  qed
qed



text \<open>
  Claim C5: when \<^verbatim>\<open>Serve\<close> (or \<^verbatim>\<open>ListenAndServe\<close>) is still accepting after some events and
  \<^verbatim>\<open>Shutdown\<close> is called, it returns \<^verbatim>\<open>ErrServerClosed\<close>; once the context is cancelled a failing
  \<^verbatim>\<open>Accept\<close> makes the loop return \<^verbatim>\<open>ErrServerClosed\<close> and not the error of \<^verbatim>\<open>Accept\<close>;
  \<^verbatim>\<open>Shutdown\<close> leaves the sessions and connections as they are; and on a server that was never
  started it returns nil and changes nothing.
\<close>

theorem Shutdown_ErrServerClosed:
  "(Serve s l evs1 = None \<longrightarrow>
      (\<exists>s'. Serve s l (evs1 @ ShutdownCalled # evs2) = Some (ErrServerClosed, s'))) \<and>
   (ListenAndServe pkg env s evs1 = None \<longrightarrow>
      (\<exists>s'. ListenAndServe pkg env s (evs1 @ ShutdownCalled # evs2) = Some (ErrServerClosed, s'))) \<and>
   (ctx_Done t \<longrightarrow> Serve_loop t (AcceptFails err # evs) = Some (ErrServerClosed, t)) \<and>
   sessions (fst (Shutdown t)) = sessions t \<and>
   closed_conns (fst (Shutdown t)) = closed_conns t \<and>
   Shutdown (NewServer d opts0) = (NewServer d opts0, None)"
proof -
  have A: "\<And>s l. Serve s l evs1 = None \<Longrightarrow>
      (\<exists>s'. Serve s l (evs1 @ ShutdownCalled # evs2) = Some (ErrServerClosed, s'))"
    unfolding Serve_def by (rule Serve_loop_then_Shutdown) (simp_all add: started_def)
  have B: "ListenAndServe pkg env s evs1 = None \<longrightarrow>
      (\<exists>s'. ListenAndServe pkg env s (evs1 @ ShutdownCalled # evs2) = Some (ErrServerClosed, s'))"
    using A by (auto simp: ListenAndServe_def split: prod.splits sum.splits)
  have C: "ctx_Done t \<longrightarrow> Serve_loop t (AcceptFails err # evs) = Some (ErrServerClosed, t)"
    by (simp add: accept_failed_def)
  have D: "sessions (fst (Shutdown t)) = sessions t \<and> closed_conns (fst (Shutdown t)) = closed_conns t"
    by (simp add: Shutdown_def Listener_Close_def Let_def split: option.splits prod.splits)
  have E: "Shutdown (NewServer d opts0) = (NewServer d opts0, None)"
    by (simp add: Shutdown_def NewServer_def Let_def)
  show ?thesis using A B C D E by blast
qed




subsection \<open>The driver on a small host\<close>

lemmas path_eval = realPath_def filepath_Join_def filepath_Clean_def clean_elems_def
  clean_elem_def is_rooted_def

lemma rp_hello: "realPath ''./upload'' ''/hello.txt'' = ''upload/hello.txt''"
  by (simp add: path_eval)

lemma rp_nodir: "realPath ''./upload'' ''/nodir/f'' = ''upload/nodir/f''"
  by (simp add: path_eval)

lemma rp_new: "realPath ''./upload'' ''/docs/new.txt'' = ''upload/docs/new.txt''"
  by (simp add: path_eval)

lemma res_hello: "resolve upload_os ''upload/hello.txt'' = Inr [''srv'', ''upload'', ''hello.txt'']"
  by (simp add: resolve_def os_Getwd_def upload_os_def path_eval)

lemma res_nodir: "resolve upload_os ''upload/nodir/f'' = Inr [''srv'', ''upload'', ''nodir'', ''f'']"
  by (simp add: resolve_def os_Getwd_def upload_os_def path_eval)

lemma res_new: "resolve upload_os ''upload/docs/new.txt'' = Inr [''srv'', ''upload'', ''docs'', ''new.txt'']"
  by (simp add: resolve_def os_Getwd_def upload_os_def path_eval)

lemma node_hello: "os_node upload_os ''upload/hello.txt'' = Inr (File [104, 101, 108, 108, 111])"
  unfolding os_node_def res_hello by (simp add: upload_os_def)

lemma node_nodir: "os_node upload_os ''upload/nodir/f'' = Inl ENOENT"
  unfolding os_node_def res_nodir by (simp add: upload_os_def)

lemma node_new: "os_node upload_os ''upload/docs/new.txt'' = Inl ENOENT"
  unfolding os_node_def res_new by (simp add: upload_os_def)

lemma par_hello: "parent_is_dir upload_os ''upload/hello.txt''"
  unfolding parent_is_dir_def res_hello by (simp add: upload_os_def)

lemma par_new: "parent_is_dir upload_os ''upload/docs/new.txt''"
  unfolding parent_is_dir_def res_new by (simp add: upload_os_def)

text \<open>
  Claim C2 as stated fails for a destination whose parent directory is missing: the
  destination \<^verbatim>\<open>/nodir/f\<close> is not an existing directory, \<^verbatim>\<open>os.Create\<close> fails, and \<^verbatim>\<open>PutFile\<close>
  returns its error with nothing written.
\<close>

theorem PutFile_missing_parent:
  "os_node upload_os (realPath (RootPath upload_driver) ''/nodir/f'') = Inl ENOENT \<and>
   PutFile upload_driver upload_os ''/nodir/f'' \<lparr>r_data = [1], r_err = None\<rparr> False =
     (upload_os, Inl (PathError ''open'' ''upload/nodir/f'' ENOENT))"
proof -
  have rp: "realPath (RootPath upload_driver) ''/nodir/f'' = ''upload/nodir/f''"
    by (simp add: upload_driver_def rp_nodir)
  have ls: "os_Lstat upload_os ''upload/nodir/f'' = Inl (PathError ''lstat'' ''upload/nodir/f'' ENOENT)"
    by (simp add: os_Lstat_def node_nodir)
  have cr: "os_Create upload_os ''upload/nodir/f'' =
      (upload_os, Inl (PathError ''open'' ''upload/nodir/f'' ENOENT))"
    unfolding os_Create_def res_nodir by (simp add: upload_os_def)
  show ?thesis unfolding PutFile_def Let_def rp ls
    by (simp add: node_nodir os_IsNotExist_def cr)
qed

text \<open>Claim C2 on a small host: \<^verbatim>\<open>PutFile\<close> over the existing \<^verbatim>\<open>/hello.txt\<close>, truncating and appending, and to the new
  \<^verbatim>\<open>/docs/new.txt\<close>.\<close>

theorem PutFile_content_witness:
  "parent_is_dir upload_os (realPath (RootPath upload_driver) ''/hello.txt'') \<and>
   os_node upload_os (realPath (RootPath upload_driver) ''/hello.txt'') = Inr (File [104, 101, 108, 108, 111]) \<and>
   snd (PutFile upload_driver upload_os ''/hello.txt'' \<lparr>r_data = [33, 10], r_err = None\<rparr> False) = Inr 2 \<and>
   os_node (fst (PutFile upload_driver upload_os ''/hello.txt'' \<lparr>r_data = [33, 10], r_err = None\<rparr> False))
     (realPath (RootPath upload_driver) ''/hello.txt'') = Inr (File [33, 10]) \<and>
   snd (PutFile upload_driver upload_os ''/hello.txt'' \<lparr>r_data = [33, 10], r_err = None\<rparr> True) = Inr 2 \<and>
   os_node (fst (PutFile upload_driver upload_os ''/hello.txt'' \<lparr>r_data = [33, 10], r_err = None\<rparr> True))
     (realPath (RootPath upload_driver) ''/hello.txt'') = Inr (File [104, 101, 108, 108, 111, 33, 10]) \<and>
   parent_is_dir upload_os (realPath (RootPath upload_driver) ''/docs/new.txt'') \<and>
   os_node upload_os (realPath (RootPath upload_driver) ''/docs/new.txt'') = Inl ENOENT \<and>
   snd (PutFile upload_driver upload_os ''/docs/new.txt'' \<lparr>r_data = [33, 10], r_err = None\<rparr> True) = Inr 2 \<and>
   os_node (fst (PutFile upload_driver upload_os ''/docs/new.txt'' \<lparr>r_data = [33, 10], r_err = None\<rparr> True))
     (realPath (RootPath upload_driver) ''/docs/new.txt'') = Inr (File [33, 10])"
proof -
  have r1: "realPath (RootPath upload_driver) ''/hello.txt'' = ''upload/hello.txt''"
    by (simp add: upload_driver_def rp_hello)
  have r2: "realPath (RootPath upload_driver) ''/docs/new.txt'' = ''upload/docs/new.txt''"
    by (simp add: upload_driver_def rp_new)
  have p1: "parent_is_dir upload_os (realPath (RootPath upload_driver) ''/hello.txt'')"
    unfolding r1 by (rule par_hello)
  have n1: "os_node upload_os (realPath (RootPath upload_driver) ''/hello.txt'') = Inr (File [104, 101, 108, 108, 111])"
    unfolding r1 by (rule node_hello)
  have p2: "parent_is_dir upload_os (realPath (RootPath upload_driver) ''/docs/new.txt'')"
    unfolding r2 by (rule par_new)
  have n2: "os_node upload_os (realPath (RootPath upload_driver) ''/docs/new.txt'') = Inl ENOENT"
    unfolding r2 by (rule node_new)
  show ?thesis
    using PutFile_content[OF p1, of "[104, 101, 108, 108, 111]" "[33, 10]"]
          PutFile_content[OF p2, of _ "[33, 10]" True] p1 n1 p2 n2
    by simp
qed

text \<open>Claim C3 on a small host: \<^verbatim>\<open>GetFile\<close> of \<^verbatim>\<open>/hello.txt\<close> at offset 3 yields the last two of its five bytes.\<close>

theorem GetFile_suffix_witness:
  "os_node upload_os (realPath (RootPath upload_driver) ''/hello.txt'') = Inr (File [104, 101, 108, 108, 111]) \<and>
   (0::int) \<le> 3 \<and> (3::int) \<le> int (length [104, 101, 108, 108, 111 :: byte]) \<and>
   (\<exists>r. GetFile upload_driver upload_os ''/hello.txt'' 3 = Inr (5, r) \<and>
        io_ReadAll upload_os r = Inr [108, 111])"
proof -
  have r1: "realPath (RootPath upload_driver) ''/hello.txt'' = ''upload/hello.txt''"
    by (simp add: upload_driver_def rp_hello)
  have n1: "os_node upload_os (realPath (RootPath upload_driver) ''/hello.txt'') = Inr (File [104, 101, 108, 108, 111])"
    unfolding r1 by (rule node_hello)
  have "\<exists>r. GetFile upload_driver upload_os ''/hello.txt'' 3 = Inr (int (length [104, 101, 108, 108, 111 :: byte]), r) \<and>
        io_ReadAll upload_os r = Inr (drop (nat 3) [104, 101, 108, 108, 111])"
    by (rule GetFile_suffix[OF n1]) simp_all
  then show ?thesis using n1 by (simp add: numeral_3_eq_3)
qed

lemma abs_hello: "filepath_Abs upload_os ''upload/hello.txt'' = Inr ''/srv/upload/hello.txt''"
  by (simp add: filepath_Abs_def os_Getwd_def upload_os_def path_eval)

lemma lstat_hello:
  "os_Lstat upload_os ''/srv/upload/hello.txt'' =
     Inr \<lparr>fi_Name = ''hello.txt'', fi_Size = 5, fi_IsDir = False\<rparr>"
proof -
  have r: "resolve upload_os ''/srv/upload/hello.txt'' = Inr [''srv'', ''upload'', ''hello.txt'']"
    by (simp add: resolve_def path_eval)
  have b: "basename ''/srv/upload/hello.txt'' = ''hello.txt''"
    by (simp add: basename_def)
  show ?thesis unfolding os_Lstat_def os_node_def r b
    by (simp add: upload_os_def node_info_def)
qed

text \<open>Claim C9 on a small host: \<^verbatim>\<open>Stat\<close> of the existing \<^verbatim>\<open>/hello.txt\<close> fails with an oracle that knows no owner, and
  succeeds with one that answers.\<close>

theorem Stat_needs_Perm_witness:
  "filepath_Abs upload_os (realPath (RootPath upload_driver) ''/hello.txt'') = Inr ''/srv/upload/hello.txt'' \<and>
   os_Lstat upload_os ''/srv/upload/hello.txt'' = Inr \<lparr>fi_Name = ''hello.txt'', fi_Size = 5, fi_IsDir = False\<rparr> \<and>
   GetOwner no_owner_Perm ''/hello.txt'' = Inl (ErrorString ''no owner'') \<and>
   (\<exists>e. Stat (upload_driver\<lparr>Perm := no_owner_Perm\<rparr>) upload_os ''/hello.txt'' = Inl e) \<and>
   Stat upload_driver upload_os ''/hello.txt'' =
     Inr \<lparr>fi_Name = ''hello.txt'', fi_Size = 5, fi_IsDir = False,
          fx_mode = 511, fx_owner = ''root'', fx_group = ''root''\<rparr>"
proof -
  have a: "filepath_Abs upload_os (realPath (RootPath upload_driver) ''/hello.txt'') = Inr ''/srv/upload/hello.txt''"
    by (simp add: upload_driver_def rp_hello abs_hello)
  have o: "GetOwner (Perm (upload_driver\<lparr>Perm := no_owner_Perm\<rparr>)) ''/hello.txt'' = Inl (ErrorString ''no owner'')"
    by (simp add: no_owner_Perm_def)
  have f: "\<exists>e. Stat (upload_driver\<lparr>Perm := no_owner_Perm\<rparr>) upload_os ''/hello.txt'' = Inl e"
    using Stat_needs_Perm[of "upload_driver\<lparr>Perm := no_owner_Perm\<rparr>" "''/hello.txt''" upload_os] o
    by blast
  have g: "GetMode (Perm upload_driver) ''/hello.txt'' = Inr 511 \<and>
           GetOwner (Perm upload_driver) ''/hello.txt'' = Inr ''root'' \<and>
           GetGroup (Perm upload_driver) ''/hello.txt'' = Inr ''root''"
    by (simp add: upload_driver_def ok_Perm_def os_ModePerm_def)
  have "Stat upload_driver upload_os ''/hello.txt'' =
      Inr (FileInfoEx_of \<lparr>fi_Name = ''hello.txt'', fi_Size = 5, fi_IsDir = False\<rparr>
             (if fi_IsDir \<lparr>fi_Name = ''hello.txt'', fi_Size = 5, fi_IsDir = False\<rparr>
              then 511 OR os_ModeDir else 511) ''root'' ''root'')"
    using Stat_needs_Perm[of upload_driver "''/hello.txt''" upload_os] a lstat_hello g
    by blast
  then show ?thesis using a lstat_hello o f by (simp add: FileInfoEx_of_def no_owner_Perm_def)
qed

lemma rp_sub: "realPath ''./upload'' ''/hello.txt/sub'' = ''upload/hello.txt/sub''"
  by (simp add: path_eval)
lemma res_sub: "resolve upload_os ''upload/hello.txt/sub'' = Inr [''srv'', ''upload'', ''hello.txt'', ''sub'']"
  by (simp add: resolve_def os_Getwd_def upload_os_def path_eval)

lemma mk_hello: "MkdirAll_elems (tree upload_os) [''srv'', ''upload'', ''hello.txt''] = Inl (ENOTDIR, 0)"
proof -
  have l1: "lookup (tree upload_os) [''srv'', ''upload'', ''hello.txt''] = Inr (File [104, 101, 108, 108, 111])"
    by (simp add: upload_os_def)
  show ?thesis by (subst MkdirAll_elems.simps, subst l1, simp)
qed

lemma mk_sub: "MkdirAll_elems (tree upload_os) [''srv'', ''upload'', ''hello.txt'', ''sub''] = Inl (ENOTDIR, 1)"
proof -
  have l2: "lookup (tree upload_os) [''srv'', ''upload'', ''hello.txt'', ''sub''] = Inl ENOTDIR"
    by (simp add: upload_os_def)
  show ?thesis by (subst MkdirAll_elems.simps, subst l2, simp add: mk_hello)
qed

lemma parent_sub: "MkdirAll_parent ''upload/hello.txt/sub'' = ''upload/hello.txt''"
  by (simp add: MkdirAll_parent_def)

lemma rp_empty: "realPath [] ''/'' = []"
  by (simp add: path_eval)

lemma top_empty: "MkdirAll_top [] = []"
  by (subst MkdirAll_top.simps) (simp add: MkdirAll_parent_def)

text \<open>
  Claim C10 as stated fails where a regular file lies on the path: \<^verbatim>\<open>MakeDir\<close> of
  \<^verbatim>\<open>/hello.txt/sub\<close>, and of \<^verbatim>\<open>/hello.txt\<close> itself, makes nothing and returns the error
  \<^verbatim>\<open>mkdir upload/hello.txt: not a directory\<close>. It also fails where the physical path is empty,
  as for \<^verbatim>\<open>/\<close> under an empty root path.
\<close>

theorem MakeDir_blocked_by_file:
  "MakeDir upload_driver upload_os ''/hello.txt/sub'' =
     (upload_os, Some (PathError ''mkdir'' ''upload/hello.txt'' ENOTDIR)) \<and>
   MakeDir upload_driver upload_os ''/hello.txt'' =
     (upload_os, Some (PathError ''mkdir'' ''upload/hello.txt'' ENOTDIR)) \<and>
   MakeDir \<lparr>RootPath = [], Perm = ok_Perm\<rparr> upload_os ''/'' =
     (upload_os, Some (PathError ''mkdir'' [] ENOENT))"
proof -
  have 1: "MakeDir upload_driver upload_os ''/hello.txt/sub'' =
     (upload_os, Some (PathError ''mkdir'' ''upload/hello.txt'' ENOTDIR))"
    by (simp add: MakeDir_def upload_driver_def rp_sub os_MkdirAll_def res_sub mk_sub parent_sub Let_def)
  have 2: "MakeDir upload_driver upload_os ''/hello.txt'' =
     (upload_os, Some (PathError ''mkdir'' ''upload/hello.txt'' ENOTDIR))"
    by (simp add: MakeDir_def upload_driver_def rp_hello os_MkdirAll_def res_hello mk_hello)
  have 3: "MakeDir \<lparr>RootPath = [], Perm = ok_Perm\<rparr> upload_os ''/'' =
     (upload_os, Some (PathError ''mkdir'' [] ENOENT))"
    by (simp add: MakeDir_def rp_empty os_MkdirAll_def resolve_def top_empty)
  show ?thesis using 1 2 3 by blast
qed

lemma rp_xy: "realPath ''./upload'' ''/docs/x/y'' = ''upload/docs/x/y''"
  by (simp add: path_eval)
lemma res_xy: "resolve upload_os ''upload/docs/x/y'' = Inr [''srv'', ''upload'', ''docs'', ''x'', ''y'']"
  by (simp add: resolve_def os_Getwd_def upload_os_def path_eval)
lemma rp_docs: "realPath ''./upload'' ''/docs'' = ''upload/docs''"
  by (simp add: path_eval)
lemma res_docs: "resolve upload_os ''upload/docs'' = Inr [''srv'', ''upload'', ''docs'']"
  by (simp add: resolve_def os_Getwd_def upload_os_def path_eval)

text \<open>Claim C10 on a small host: \<^verbatim>\<open>MakeDir\<close> of the existing \<^verbatim>\<open>/docs\<close>; of \<^verbatim>\<open>/docs/x/y\<close>, whose
  parent is missing; of \<^verbatim>\<open>/hello.txt/sub\<close>, below a regular file; and of \<^verbatim>\<open>/\<close> under an empty
  root path, where the physical path is empty.\<close>

theorem MakeDir_idempotent_parents_witness:
  "os_node upload_os (realPath (RootPath upload_driver) ''/docs'') = Inr (Dir [(''a.txt'', File [97])]) \<and>
   MakeDir upload_driver upload_os ''/docs'' = (upload_os, None) \<and>
   names_place upload_os (realPath (RootPath upload_driver) ''/docs/x/y'') \<and>
   \<not> file_on_path upload_os (realPath (RootPath upload_driver) ''/docs/x/y'') \<and>
   os_node upload_os (realPath (RootPath upload_driver) ''/docs/x'') = Inl ENOENT \<and>
   snd (MakeDir upload_driver upload_os ''/docs/x/y'') = None \<and>
   dirs_along (fst (MakeDir upload_driver upload_os ''/docs/x/y'')) (realPath (RootPath upload_driver) ''/docs/x/y'') \<and>
   MakeDir upload_driver (fst (MakeDir upload_driver upload_os ''/docs/x/y'')) ''/docs/x/y'' =
     MakeDir upload_driver upload_os ''/docs/x/y'' \<and>
   file_on_path upload_os (realPath (RootPath upload_driver) ''/hello.txt/sub'') \<and>
   fst (MakeDir upload_driver upload_os ''/hello.txt/sub'') = upload_os \<and>
   \<not> names_place upload_os (realPath (RootPath \<lparr>RootPath = [], Perm = ok_Perm\<rparr>) ''/'') \<and>
   MakeDir \<lparr>RootPath = [], Perm = ok_Perm\<rparr> upload_os ''/'' =
     (upload_os, Some (PathError ''mkdir'' [] ENOENT))"
proof -
  have d: "os_node upload_os (realPath (RootPath upload_driver) ''/docs'') = Inr (Dir [(''a.txt'', File [97])])"
    by (simp add: upload_driver_def rp_docs os_node_def res_docs) (simp add: upload_os_def)
  have n: "names_place upload_os (realPath (RootPath upload_driver) ''/docs/x/y'')"
    by (simp add: upload_driver_def rp_xy names_place_def res_xy)
  have u: "\<not> file_on_path upload_os (realPath (RootPath upload_driver) ''/docs/x/y'')"
    by (simp add: upload_driver_def rp_xy file_on_path_def res_xy) (simp add: upload_os_def upt_rec)
  have x: "os_node upload_os (realPath (RootPath upload_driver) ''/docs/x'') = Inl ENOENT"
    by (simp add: upload_driver_def os_node_def resolve_def os_Getwd_def path_eval upload_os_def)
  have b: "file_on_path upload_os (realPath (RootPath upload_driver) ''/hello.txt/sub'')"
    by (simp add: upload_driver_def rp_sub file_on_path_def res_sub) (simp add: upload_os_def upt_rec)
  have e: "\<not> names_place upload_os (realPath (RootPath \<lparr>RootPath = [], Perm = ok_Perm\<rparr>) ''/'')"
    by (simp add: rp_empty names_place_def resolve_def)
  have t: "MkdirAll_top (realPath (RootPath \<lparr>RootPath = [], Perm = ok_Perm\<rparr>) ''/'') = []"
    by (simp add: rp_empty top_empty)
  show ?thesis
    using MakeDir_idempotent_parents[of upload_driver upload_os "''/docs/x/y''"]
          MakeDir_idempotent_parents[of upload_driver upload_os "''/docs''"]
          MakeDir_idempotent_parents[of upload_driver upload_os "''/hello.txt/sub''"]
          MakeDir_idempotent_parents[of "\<lparr>RootPath = [], Perm = ok_Perm\<rparr>" upload_os "''/''"]
          d n u x b e t
    by simp
qed

lemma sw1: "stays_within ''/docs/../hello.txt''" by (simp add: stays_within_def)
lemma sw2: "stays_within ''/docs/b.txt''" by (simp add: stays_within_def)
lemma sw3: "stays_within ''/docs/..''" by (simp add: stays_within_def)
lemma rp_dd: "realPath ''./upload'' ''/docs/../hello.txt'' = ''upload/hello.txt''"
  by (simp add: path_eval)
lemma rp_b: "realPath ''./upload'' ''/docs/b.txt'' = ''upload/docs/b.txt''"
  by (simp add: path_eval)
lemma rp_up: "realPath ''./upload'' ''/docs/..'' = ''upload''"
  by (simp add: path_eval)
lemma abs_root: "filepath_Abs upload_os ''./upload'' = Inr ''/srv/upload''"
  by (simp add: filepath_Abs_def os_Getwd_def upload_os_def path_eval)
lemma node_up: "os_node upload_os ''upload'' =
    Inr (Dir [(''hello.txt'', File [104, 101, 108, 108, 111]), (''docs'', Dir [(''a.txt'', File [97])])])"
  by (simp add: os_node_def resolve_def os_Getwd_def upload_os_def path_eval)

text \<open>Claim C4 on a small host, under the root \<^verbatim>\<open>./upload\<close> of \<^verbatim>\<open>main.go\<close> in the working directory
  \<^verbatim>\<open>/srv\<close>: the virtual path \<^verbatim>\<open>/docs/../hello.txt\<close> holds \<^verbatim>\<open>..\<close> and stays below the virtual root;
  \<^verbatim>\<open>DeleteFile\<close> and \<^verbatim>\<open>Rename\<close> hand over \<^verbatim>\<open>upload/hello.txt\<close>, \<^verbatim>\<open>Stat\<close> hands over
  \<^verbatim>\<open>/srv/upload/hello.txt\<close>, and \<^verbatim>\<open>ListDir\<close> of \<^verbatim>\<open>/docs/..\<close> walks the root directory.\<close>

theorem realPath_contained_witness:
  "stays_within ''/docs/../hello.txt'' \<and> stays_within ''/docs/b.txt'' \<and> stays_within ''/docs/..'' \<and>
   realPath (RootPath upload_driver) ''/docs/../hello.txt'' = ''upload/hello.txt'' \<and>
   lexically_under (RootPath upload_driver) ''upload/hello.txt'' \<and>
   snd (DeleteFile_traced upload_driver upload_os ''/docs/../hello.txt'') =
     [''upload/hello.txt'', ''upload/hello.txt''] \<and>
   snd (Rename_traced upload_driver upload_os ''/docs/../hello.txt'' ''/docs/b.txt'') =
     [''upload/hello.txt'', ''upload/docs/b.txt''] \<and>
   paths_under (RootPath upload_driver) [''upload/hello.txt'', ''upload/docs/b.txt''] \<and>
   filepath_Abs upload_os (RootPath upload_driver) = Inr ''/srv/upload'' \<and>
   snd (Stat_traced upload_driver upload_os ''/docs/../hello.txt'') = [''/srv/upload/hello.txt''] \<and>
   paths_under ''/srv/upload'' [''/srv/upload/hello.txt''] \<and>
   os_node upload_os (realPath (RootPath upload_driver) ''/docs/..'') =
     Inr (Dir [(''hello.txt'', File [104, 101, 108, 108, 111]), (''docs'', Dir [(''a.txt'', File [97])])]) \<and>
   valid_names (Dir [(''hello.txt'', File [104, 101, 108, 108, 111]), (''docs'', Dir [(''a.txt'', File [97])])]) \<and>
   paths_under (RootPath upload_driver)
     (snd (ListDir_traced upload_driver upload_os ''/docs/..'' (\<lambda>calls fi. None)))"
proof -
  note t1 = realPath_contained[OF sw1 sw2, of upload_driver upload_os "\<lambda>calls fi. None" 0
      "\<lparr>r_data = [], r_err = None\<rparr>" False]
  note t2 = realPath_contained[OF sw3 sw3, of upload_driver upload_os "\<lambda>calls fi. None" 0
      "\<lparr>r_data = [], r_err = None\<rparr>" False]
  have r: "RootPath upload_driver = ''./upload''" by (simp add: upload_driver_def)
  have a: "realPath (RootPath upload_driver) ''/docs/../hello.txt'' = ''upload/hello.txt''"
    by (simp add: r rp_dd)
  have b: "lexically_under (RootPath upload_driver) ''upload/hello.txt''" using t1 a by simp
  have ls: "os_Lstat upload_os ''upload/hello.txt'' =
      Inr \<lparr>fi_Name = ''hello.txt'', fi_Size = 5, fi_IsDir = False\<rparr>"
  proof -
    have bn: "basename ''upload/hello.txt'' = ''hello.txt''" by (simp add: basename_def)
    show ?thesis unfolding os_Lstat_def node_hello bn by (simp add: node_info_def)
  qed
  have c: "snd (DeleteFile_traced upload_driver upload_os ''/docs/../hello.txt'') =
     [''upload/hello.txt'', ''upload/hello.txt'']"
    by (simp add: DeleteFile_traced_def r rp_dd ls Let_def)
  have d: "snd (Rename_traced upload_driver upload_os ''/docs/../hello.txt'' ''/docs/b.txt'') =
     [''upload/hello.txt'', ''upload/docs/b.txt'']"
    by (simp add: Rename_traced_def r rp_dd rp_b Let_def)
  have e: "paths_under (RootPath upload_driver) [''upload/hello.txt'', ''upload/docs/b.txt'']"
    using t1 d by simp
  have f: "filepath_Abs upload_os (RootPath upload_driver) = Inr ''/srv/upload''"
    by (simp add: r abs_root)
  have g: "snd (Stat_traced upload_driver upload_os ''/docs/../hello.txt'') = [''/srv/upload/hello.txt'']"
    by (simp add: Stat_traced_def r rp_dd abs_hello lstat_hello Let_def)
      (simp add: upload_driver_def ok_Perm_def)
  have h: "paths_under ''/srv/upload'' [''/srv/upload/hello.txt'']" using t1 f g by simp
  have i: "os_node upload_os (realPath (RootPath upload_driver) ''/docs/..'') =
     Inr (Dir [(''hello.txt'', File [104, 101, 108, 108, 111]), (''docs'', Dir [(''a.txt'', File [97])])])"
    by (simp add: r rp_up node_up)
  have j: "valid_names (Dir [(''hello.txt'', File [104, 101, 108, 108, 111]), (''docs'', Dir [(''a.txt'', File [97])])])"
    by (simp add: valid_name_def plain_def)
  have k: "paths_under (RootPath upload_driver)
     (snd (ListDir_traced upload_driver upload_os ''/docs/..'' (\<lambda>calls fi. None)))"
    using t2 i j by simp
  show ?thesis using sw1 sw2 sw3 a b c d e f g h i j k by blast
qed

text \<open>
  Claim C1 at the root path \<^verbatim>\<open>.\<close>: for the directory \<^verbatim>\<open>/\<close> of a driver whose root is the working
  directory, \<^verbatim>\<open>realPath\<close> is \<^verbatim>\<open>.\<close>, the walk starts at an entry whose name is \<^verbatim>\<open>.\<close> and whose
  relative path is \<^verbatim>\<open>.\<close> too, so the callback is called on the directory itself, \<^verbatim>\<open>SkipDir\<close>
  ends the walk, and neither \<^verbatim>\<open>hello.txt\<close> nor \<^verbatim>\<open>docs\<close> is listed.
\<close>

theorem ListDir_of_dot_lists_dot:
  "ListDir \<lparr>RootPath = ''.'', Perm = ok_Perm\<rparr> (upload_os\<lparr>cwd := Some ''/srv/upload''\<rparr>) ''/''
       (\<lambda>calls fi. None) =
     (None, [\<lparr>fi_Name = ''.'', fi_Size = 0, fi_IsDir = True,
              fx_mode = os_ModePerm OR os_ModeDir, fx_owner = ''root'', fx_group = ''root''\<rparr>])"
proof -
  have rp: "realPath ''.'' ''/'' = ''.''" by (simp add: path_eval)
  have n: "os_node (upload_os\<lparr>cwd := Some ''/srv/upload''\<rparr>) ''.'' =
      Inr (Dir [(''hello.txt'', File [104, 101, 108, 108, 111]), (''docs'', Dir [(''a.txt'', File [97])])])"
    by (simp add: os_node_def resolve_def os_Getwd_def path_eval upload_os_def)
  have rel: "filepath_Rel ''.'' ''.'' = Inr ''.''"
    by (simp add: filepath_Rel_def filepath_Clean_def is_rooted_def clean_elems_def clean_elem_def)
  have b: "basename ''.'' = ''.''" by (simp add: basename_def)
  show ?thesis
    unfolding ListDir_def Let_def
    by (simp add: rp filepath_Walk_def n b node_info_def ListDir_walkFn_def rel ok_Perm_def
        FileInfoEx_of_def)
qed

text \<open>With the root \<^verbatim>\<open>./upload\<close> of \<^verbatim>\<open>main.go\<close> the listing of \<^verbatim>\<open>/\<close> has the two children of the
  directory, \<^verbatim>\<open>docs\<close> before \<^verbatim>\<open>hello.txt\<close>, and not \<^verbatim>\<open>docs/a.txt\<close>.\<close>

theorem ListDir_of_upload_lists_children:
  "ListDir upload_driver upload_os ''/'' (\<lambda>calls fi. None) =
     (None, [\<lparr>fi_Name = ''docs'', fi_Size = 0, fi_IsDir = True,
              fx_mode = os_ModePerm OR os_ModeDir, fx_owner = ''root'', fx_group = ''root''\<rparr>,
             \<lparr>fi_Name = ''hello.txt'', fi_Size = 5, fi_IsDir = False,
              fx_mode = os_ModePerm, fx_owner = ''root'', fx_group = ''root''\<rparr>])"
proof -
  let ?ents = "[(''hello.txt'', File [104, 101, 108, 108, 111]), (''docs'', Dir [(''a.txt'', File [97])])]"
  have rp: "realPath (RootPath upload_driver) ''/'' = ''upload''"
    by (simp add: upload_driver_def path_eval)
  have d: "os_node upload_os (realPath (RootPath upload_driver) ''/'') = Inr (Dir ?ents)"
    unfolding rp by (simp add: os_node_def resolve_def os_Getwd_def path_eval upload_os_def)
  have nd: "realPath (RootPath upload_driver) ''/'' \<noteq> ''.''" unfolding rp by simp
  have v: "\<forall>name \<in> fst ` set ?ents. valid_name name \<and> perm_answers (Perm upload_driver) name"
    by (simp add: valid_name_def plain_def perm_answers_def upload_driver_def ok_Perm_def)
  have "ListDir upload_driver upload_os ''/'' (\<lambda>calls fi. None) =
      (None, map (\<lambda>name. list_entry upload_driver name (the (map_of ?ents name))) (readDirNames ?ents))"
    by (rule ListDir_lists_children[OF d nd v]) simp
  then show ?thesis
    by (simp add: sorted_names list_entry_def node_info_def FileInfoEx_of_def is_Dir_def
        upload_driver_def ok_Perm_def)
qed


subsection \<open>The server of main.go\<close>


lemma serve_running:
  "Serve (NewServer ''hi'' (Some main_opts)) tcp_listener
      [Incoming 1 ''s1'', AcceptFails (NetError True ''timeout'')] = None"
  by (simp add: Serve_def NewServer_def listener_closed_def tcp_listener_def accepted_def
      serverOptsWithDefaults_def given_opts_def main_opts_def zero_ServerOpts_def Let_def
      accept_failed_def ctx_Done_def is_temporary_def doLogger_def)



lemmas server_eval = Serve_def NewServer_def listener_closed_def tcp_listener_def accepted_def
  serverOptsWithDefaults_def given_opts_def main_opts_def zero_ServerOpts_def Let_def
  accept_failed_def ctx_Done_def is_temporary_def doLogger_def ListenAndServe_def
  ListenAndServe_listen_def free_env_def net_JoinHostPort_def strconv_Itoa_def
  nat_digits.simps digit_char_def Shutdown_def Listener_Close_def simpleTLSConfig_def
  some_pkg_def newConn_def err_closed_def

text \<open>Claim C5 at work: the server of \<^verbatim>\<open>main.go\<close> accepts a connection and survives a temporary error; a call of
  \<^verbatim>\<open>Shutdown\<close> then makes it return \<^verbatim>\<open>ErrServerClosed\<close>.\<close>

theorem Shutdown_ErrServerClosed_witness:
  "Serve (NewServer ''hi'' (Some main_opts)) tcp_listener
      [Incoming 1 ''s1'', AcceptFails (NetError True ''timeout'')] = None \<and>
   (\<exists>s'. Serve (NewServer ''hi'' (Some main_opts)) tcp_listener
           ([Incoming 1 ''s1'', AcceptFails (NetError True ''timeout'')] @ ShutdownCalled # [Incoming 2 ''s2''])
         = Some (ErrServerClosed, s')) \<and>
   ListenAndServe some_pkg free_env (NewServer ''hi'' (Some main_opts))
      [Incoming 1 ''s1'', AcceptFails (NetError True ''timeout'')] = None \<and>
   (\<exists>s'. ListenAndServe some_pkg free_env (NewServer ''hi'' (Some main_opts))
           ([Incoming 1 ''s1'', AcceptFails (NetError True ''timeout'')] @ ShutdownCalled # [Incoming 2 ''s2''])
         = Some (ErrServerClosed, s')) \<and>
   ctx_Done (fst (Shutdown ((NewServer ''hi'' (Some main_opts))\<lparr>listener := Some tcp_listener, ctx := Some False\<rparr>))) \<and>
   Serve_loop (fst (Shutdown ((NewServer ''hi'' (Some main_opts))\<lparr>listener := Some tcp_listener, ctx := Some False\<rparr>)))
      [AcceptFails (NetError False ''reset'')] =
     Some (ErrServerClosed,
           fst (Shutdown ((NewServer ''hi'' (Some main_opts))\<lparr>listener := Some tcp_listener, ctx := Some False\<rparr>)))"
proof -
  let ?S = "NewServer ''hi'' (Some main_opts)"
  let ?E = "[Incoming 1 ''s1'', AcceptFails (NetError True ''timeout'')]"
  let ?T = "fst (Shutdown (?S\<lparr>listener := Some tcp_listener, ctx := Some False\<rparr>))"
  have a: "Serve ?S tcp_listener ?E = None" by (rule serve_running)
  have b: "ListenAndServe some_pkg free_env ?S ?E = None" by (simp add: server_eval)
  have c: "ctx_Done ?T" by (simp add: server_eval)
  note th = Shutdown_ErrServerClosed[of ?S tcp_listener ?E "[Incoming 2 ''s2'']" some_pkg free_env ?T
      "NetError False ''reset''" "[]"]
  show ?thesis using th a b c by blast
qed



end
